theory Spec2Isabelle
  imports Complex_Main
begin

section \<open>The product catalog\<close>

text \<open>
  A Python \<open>str\<close> is a sequence of code points. The numeric columns, the targets
  and the costs are Python floats; they are rationals here, with exact sums and products.
  Rounding is not modelled, and no property below depends on the value that a sum of
  nutrients, a bound of a nutrient window or a cost takes.
\<close>

type_synonym ustring = "nat list"

text \<open>
  One row of \<open>products_df\<close> (the columns of the \<open>products\<close> table of database.py).
  A missing name (\<open>NaN\<close>) is \<open>None\<close>.
\<close>

record product =
  name :: "ustring option"
  proteins :: rat
  fats :: rat
  carbs :: rat
  calories :: rat
  weight :: rat
  price :: rat

text \<open>
  \<open>products_df['name'].str.contains(pattern, case=False, na=False)\<close> with
  \<open>pattern = '|'.join(map(re.escape, excluded_products))\<close>: a regular-expression search
  for an alternation of escaped literals, that is, some entry of the list occurs in the
  name as a contiguous substring, compared letter by letter up to case. The case table
  of the \<open>re\<close> module is a parameter \<open>casefold\<close>, which sends a code point to the
  representative of its case class.
\<close>

fun starts_with :: "(nat \<Rightarrow> nat) \<Rightarrow> ustring \<Rightarrow> ustring \<Rightarrow> bool" where
  "starts_with casefold [] s = True"
| "starts_with casefold (c # cs) [] = False"
| "starts_with casefold (c # cs) (d # ds) = (casefold c = casefold d \<and> starts_with casefold cs ds)"

fun re_search :: "(nat \<Rightarrow> nat) \<Rightarrow> ustring \<Rightarrow> ustring \<Rightarrow> bool" where
  "re_search casefold pat [] = starts_with casefold pat []"
| "re_search casefold pat (d # ds) =
     (starts_with casefold pat (d # ds) \<or> re_search casefold pat ds)"

definition str_contains :: "(nat \<Rightarrow> nat) \<Rightarrow> ustring list \<Rightarrow> ustring option \<Rightarrow> bool" where
  "str_contains casefold excluded_products nm =
     (case nm of
        None \<Rightarrow> False
      | Some s \<Rightarrow> \<exists>e \<in> set excluded_products. re_search casefold e s)"

text \<open>
  The first block of \<open>find_all_solutions\<close>: the rows whose name matches are dropped, but
  only when the exclusion list is not empty; \<open>reset_index(drop=True)\<close> then renumbers
  the rows \<open>0 .. n-1\<close>, which is the position in the list.
\<close>

definition exclude_products :: "(nat \<Rightarrow> nat) \<Rightarrow> ustring list \<Rightarrow> product list \<Rightarrow> product list" where
  "exclude_products casefold excluded_products products_df =
     (if excluded_products \<noteq> []
      then filter (\<lambda>p. \<not> str_contains casefold excluded_products (name p)) products_df
      else products_df)"

section \<open>The integer program handed to the solver\<close>

datatype lp_status = NotSolved | Optimal | Infeasible | Unbounded | Undefined

datatype lp_sense = LE | GE

record lp_variable =
  low_bound :: rat
  up_bound :: rat
  is_integer :: bool

text \<open>A linear constraint: the sum of \<open>coefficient * variable\<close> over its terms against a bound.\<close>

record lp_constraint =
  terms :: "(nat \<times> rat) list"
  sense :: lp_sense
  rhs :: rat

record lp_problem =
  lp_day :: "nat option"
  variables :: "lp_variable list"
  objective :: "(nat \<times> rat) list"
  constraints :: "lp_constraint set"

definition lp_value :: "(nat \<Rightarrow> rat) \<Rightarrow> (nat \<times> rat) list \<Rightarrow> rat" where
  "lp_value q ts = sum_list (map (\<lambda>(i, c). c * q i) ts)"

definition lp_satisfies :: "(nat \<Rightarrow> rat) \<Rightarrow> lp_constraint \<Rightarrow> bool" where
  "lp_satisfies q c =
     (case sense c of
        LE \<Rightarrow> lp_value q (terms c) \<le> rhs c
      | GE \<Rightarrow> rhs c \<le> lp_value q (terms c))"

definition var_ok :: "lp_variable \<Rightarrow> rat \<Rightarrow> bool" where
  "var_ok v x =
     (low_bound v \<le> x \<and> x \<le> up_bound v \<and> (is_integer v \<longrightarrow> of_int \<lfloor>x\<rfloor> = x))"

definition lp_feasible :: "lp_problem \<Rightarrow> (nat \<Rightarrow> rat) \<Rightarrow> bool" where
  "lp_feasible p q =
     ((\<forall>i \<in> set [0..<length (variables p)]. var_ok (variables p ! i) (q i)) \<and>
      (\<forall>c \<in> constraints p. lp_satisfies q c))"

section \<open>The formulation of \<open>find_all_solutions\<close>\<close>

definition deviation :: rat where
  "deviation = 5 / 100"

definition max_solutions :: nat where
  "max_solutions = 5"

definition attempt_limit :: nat where
  "attempt_limit = 50"

record targets =
  proteins_target :: rat
  fats_target :: rat
  carbs_target :: rat
  daily_calories :: rat

text \<open>\<open>lpSum([products_df.loc[i, col] * product_vars[i] for i in products_df.index])\<close>\<close>

definition column_terms :: "(product \<Rightarrow> rat) \<Rightarrow> product list \<Rightarrow> (nat \<times> rat) list" where
  "column_terms col products_df = map (\<lambda>i. (i, col (products_df ! i))) [0..<length products_df]"

text \<open>
  The two constraints \<open>Min_...\<close> and \<open>Max_...\<close> of one nutrient. The code computes
  the bounds \<open>target * (1 - deviation)\<close> and \<open>target * (1 + deviation)\<close> in floats; they
  are the exact products here.
\<close>

definition window :: "(product \<Rightarrow> rat) \<Rightarrow> rat \<Rightarrow> product list \<Rightarrow> lp_constraint list" where
  "window col tgt products_df =
     [\<lparr>terms = column_terms col products_df, sense = GE, rhs = tgt * (1 - deviation)\<rparr>,
      \<lparr>terms = column_terms col products_df, sense = LE, rhs = tgt * (1 + deviation)\<rparr>]"

text \<open>
  \<open>lpSum([product_vars[i] for i in rejected]) <= len(rejected) - 1\<close>; the bound is
  \<open>-1\<close> for the empty tuple.
\<close>

definition avoid :: "nat list \<Rightarrow> lp_constraint" where
  "avoid rejected =
     \<lparr>terms = map (\<lambda>i. (i, 1)) rejected, sense = LE, rhs = of_nat (length rejected) - 1\<rparr>"

text \<open>\<open>LpVariable(f"Product_{i}", lowBound=0, upBound=3, cat='Integer')\<close>\<close>

definition product_vars :: "product list \<Rightarrow> lp_variable list" where
  "product_vars products_df =
     map (\<lambda>i. \<lparr>low_bound = 0, up_bound = 3, is_integer = True\<rparr>) [0..<length products_df]"

definition formulate :: "product list \<Rightarrow> targets \<Rightarrow> nat list set \<Rightarrow> nat option \<Rightarrow> lp_problem" where
  "formulate products_df tgt rejected_solutions day =
     \<lparr>lp_day = day,
      variables = product_vars products_df,
      objective = column_terms price products_df,
      constraints =
        set (window proteins (proteins_target tgt) products_df @
             window fats (fats_target tgt) products_df @
             window carbs (carbs_target tgt) products_df @
             window calories (daily_calories tgt) products_df)
        \<union> avoid ` rejected_solutions\<rparr>"

section \<open>Solutions, effects and the solver\<close>

text \<open>
  The dictionary appended to \<open>solutions\<close>. \<open>products\<close> is the frame of the selected
  rows with their \<open>quantity\<close> column: row number, row, quantity.
\<close>

record solution =
  products :: "(nat \<times> product \<times> int) list"
  total_cost :: rat
  quantities :: "int list"
  ids :: "nat list"

text \<open>An entry of \<open>weekly_plan\<close>; \<open>diet = None\<close> is the failure marker.\<close>

record day_plan =
  day :: nat
  diet :: "(nat \<times> product \<times> int) list option"
  day_total_cost :: rat

text \<open>
  What the code does to the outside, in order: the log line of the exclusion filter,
  each \<open>prob.solve\<close>, and the messages of the weekly dialogue.
\<close>

datatype effect =
    LogExcluded nat
  | SolverCall lp_problem
  | AskConfirm nat solution
  | MsgDayFailed nat
  | MsgRetry
  | MsgBudgetExhausted nat
  | MsgFinalPlan "day_plan list" rat

text \<open>
  The solver is a black box: from the problem (and, since it may time out, from what
  happened before) it yields a status and a value for every variable. A variable left
  without a value (\<open>varValue\<close> is \<open>None\<close>, on which \<open>int\<close> raises \<open>TypeError\<close>) is
  not modelled.
\<close>

type_synonym solver = "effect list \<Rightarrow> lp_problem \<Rightarrow> lp_status \<times> (nat \<Rightarrow> rat)"

datatype py_error = KeyError | TypeError

text \<open>A call either returns, or raises with the mutable objects as they are at that point.\<close>

datatype 'a outcome = Returned 'a | Raised py_error 'a

datatype 'a loop_ctl = Continue 'a | Break 'a | Raise py_error 'a

section \<open>The search loop\<close>

text \<open>
  The variables of the \<open>while\<close> loop. \<open>rejected\<close> is the set object passed as
  \<open>rejected_solutions\<close>, which the loop extends in place.
\<close>

record search_state =
  solutions :: "solution list"
  rejected :: "nat list set"
  attempts :: nat
  trace :: "effect list"

text \<open>Python's \<open>int()\<close> of a float truncates towards zero.\<close>

definition py_int :: "rat \<Rightarrow> int" where
  "py_int x = (if 0 \<le> x then \<lfloor>x\<rfloor> else \<lceil>x\<rceil>)"

definition read_quantities :: "product list \<Rightarrow> (nat \<Rightarrow> rat) \<Rightarrow> int list" where
  "read_quantities products_df var_value = map (\<lambda>i. py_int (var_value i)) [0..<length products_df]"

definition selected_ids :: "int list \<Rightarrow> nat list" where
  "selected_ids qs = sort (filter (\<lambda>i. 0 < qs ! i) [0..<length qs])"

text \<open>
  \<open>(products_df[col] * products_df['quantity']).sum()\<close>, a float sum in the code and the
  exact sum here.
\<close>

definition weighted_sum :: "(product \<Rightarrow> rat) \<Rightarrow> product list \<Rightarrow> int list \<Rightarrow> rat" where
  "weighted_sum col products_df qs =
     sum_list (map (\<lambda>i. col (products_df ! i) * of_int (qs ! i)) [0..<length products_df])"

definition make_solution :: "product list \<Rightarrow> int list \<Rightarrow> solution" where
  "make_solution products_df qs =
     \<lparr>products = map (\<lambda>i. (i, products_df ! i, qs ! i))
                    (filter (\<lambda>i. 0 < qs ! i) [0..<length products_df]),
      total_cost = weighted_sum price products_df qs,
      quantities = qs,
      ids = selected_ids qs\<rparr>"

text \<open>
  \<open>product_vars[i]\<close> for a row number that the catalog does not have raises
  \<open>KeyError\<close> while the constraints are built.
\<close>

definition unknown_index :: "product list \<Rightarrow> nat list set \<Rightarrow> bool" where
  "unknown_index products_df rejected_solutions =
     (\<exists>r \<in> rejected_solutions. \<exists>i \<in> set r. \<not> i < length products_df)"

text \<open>One pass through the body of the \<open>while\<close> loop.\<close>

definition attempt ::
  "solver \<Rightarrow> product list \<Rightarrow> targets \<Rightarrow> nat option \<Rightarrow> search_state \<Rightarrow> search_state loop_ctl" where
  "attempt solve products_df tgt dy st =
     (if unknown_index products_df (rejected st) then Raise KeyError st
      else
        let prob = formulate products_df tgt (rejected st) dy;
            res = solve (trace st) prob;
            st1 = st\<lparr>trace := trace st @ [SolverCall prob]\<rparr>
        in if fst res = Optimal then
             let sol = make_solution products_df (read_quantities products_df (snd res))
             in if ids sol \<in> rejected st
                then Continue (st1\<lparr>attempts := attempts st + 1\<rparr>)
                else Continue (st1\<lparr>solutions := solutions st @ [sol],
                                    rejected := insert (ids sol) (rejected st),
                                    attempts := attempts st + 1\<rparr>)
           else Break st1)"

function search_loop ::
  "solver \<Rightarrow> product list \<Rightarrow> targets \<Rightarrow> nat option \<Rightarrow> search_state \<Rightarrow> search_state outcome" where
  "search_loop solve products_df tgt dy st =
     (if length (solutions st) < max_solutions \<and> attempts st < attempt_limit
      then (case attempt solve products_df tgt dy st of
              Continue st' \<Rightarrow> search_loop solve products_df tgt dy st'
            | Break st' \<Rightarrow> Returned st'
            | Raise e st' \<Rightarrow> Raised e st')
      else Returned st)"
  by pat_completeness auto
termination
  by (relation "measure (\<lambda>(solve, products_df, tgt, dy, st). attempt_limit - attempts st)")
     (auto simp: attempt_def Let_def split: if_splits)

declare search_loop.simps [simp del]

text \<open>
  \<open>find_all_solutions\<close>: the exclusion filter, then the loop from an empty result list
  and zero attempts. The caller's set and the effects so far come in, the final loop
  state (result list, set, effects) goes out.
\<close>

definition find_all_solutions ::
  "solver \<Rightarrow> (nat \<Rightarrow> nat) \<Rightarrow> product list \<Rightarrow> targets \<Rightarrow> ustring list \<Rightarrow> nat list set \<Rightarrow>
   nat option \<Rightarrow> effect list \<Rightarrow> search_state outcome" where
  "find_all_solutions solve casefold products_df tgt excluded_products rejected_solutions dy tr =
     (let df = exclude_products casefold excluded_products products_df;
          tr1 = (if excluded_products \<noteq> []
                 then tr @ [LogExcluded (length products_df - length df)]
                 else tr)
      in search_loop solve df tgt dy
           \<lparr>solutions = [], rejected = rejected_solutions, attempts = 0, trace = tr1\<rparr>)"

text \<open>
  The default value of \<open>rejected_solutions\<close> is one set object, made when the
  function is defined and kept in the function object; a call that leaves the argument
  out works on that object, and so leaves its additions in it. \<open>excluded_products\<close>
  has such a default too (a list that is never changed).
\<close>

record module_defaults =
  default_excluded_products :: "ustring list"
  default_rejected_solutions :: "nat list set"

definition initial_defaults :: module_defaults where
  "initial_defaults = \<lparr>default_excluded_products = [], default_rejected_solutions = {}\<rparr>"

definition call_find_all_solutions ::
  "solver \<Rightarrow> (nat \<Rightarrow> nat) \<Rightarrow> product list \<Rightarrow> targets \<Rightarrow> ustring list option \<Rightarrow>
   nat list set option \<Rightarrow> nat option \<Rightarrow> module_defaults \<Rightarrow> effect list \<Rightarrow>
   search_state outcome \<times> module_defaults" where
  "call_find_all_solutions solve casefold df tgt excluded_arg rejected_arg dy defaults tr =
     (let excl = (case excluded_arg of None \<Rightarrow> default_excluded_products defaults | Some e \<Rightarrow> e);
          rej = (case rejected_arg of None \<Rightarrow> default_rejected_solutions defaults | Some r \<Rightarrow> r);
          out = find_all_solutions solve casefold df tgt excl rej dy tr;
          final = (case out of Returned st \<Rightarrow> rejected st | Raised e st \<Rightarrow> rejected st)
      in (out, if rejected_arg = None
               then defaults\<lparr>default_rejected_solutions := final\<rparr>
               else defaults))"

section \<open>The weekly dialogue (handlers.py)\<close>

text \<open>
  The data of one conversation. The storage hands out the stored objects themselves, so
  the ledger, the plan and the counters that a handler changes in place are the
  conversation's own; the model passes the record along. \<open>day_attempts\<close> is the
  dictionary \<open>attempts\<close> (day to number of rejections).
\<close>

record session =
  products_df :: "product list"
  excluded_products :: "ustring list"
  nutrition :: targets
  weekly_plan :: "day_plan list"
  current_day :: nat
  rejected_solutions :: "nat list set"
  day_attempts :: "nat \<rightharpoonup> nat"
  current_solution :: "solution option"

text \<open>\<open>Form.reviewing_day\<close> with its data, or the state after \<open>state.clear()\<close>.\<close>

datatype fsm = Reviewing session | Cleared

datatype response = Accept | Reject

definition failed_day :: "nat \<Rightarrow> day_plan" where
  "failed_day d = \<lparr>day = d, diet = None, day_total_cost = 0\<rparr>"

definition show_final_plan :: "session \<Rightarrow> effect list \<Rightarrow> (fsm \<times> effect list) outcome" where
  "show_final_plan s tr =
     Returned (Cleared,
               tr @ [MsgFinalPlan (weekly_plan s) (sum_list (map day_total_cost (weekly_plan s)))])"

function present_day_plan ::
  "solver \<Rightarrow> (nat \<Rightarrow> nat) \<Rightarrow> session \<Rightarrow> effect list \<Rightarrow> (fsm \<times> effect list) outcome" where
  "present_day_plan solve casefold s tr =
     (case find_all_solutions solve casefold (products_df s) (nutrition s) (excluded_products s)
             (rejected_solutions s) (Some (current_day s)) tr of
        Raised e st \<Rightarrow> Raised e (Reviewing (s\<lparr>rejected_solutions := rejected st\<rparr>), trace st)
      | Returned st \<Rightarrow>
          (case solutions st of
             sol # rest \<Rightarrow>
               Returned (Reviewing (s\<lparr>rejected_solutions := rejected st,
                                      current_solution := Some sol\<rparr>),
                         trace st @ [AskConfirm (current_day s) sol])
           | [] \<Rightarrow>
               (if current_day s < 7
                then present_day_plan solve casefold
                       (s\<lparr>rejected_solutions := rejected st,
                          weekly_plan := weekly_plan s @ [failed_day (current_day s)],
                          current_day := current_day s + 1\<rparr>)
                       (trace st @ [MsgDayFailed (current_day s)])
                else show_final_plan
                       (s\<lparr>rejected_solutions := rejected st,
                          weekly_plan := weekly_plan s @ [failed_day (current_day s)]\<rparr>)
                       (trace st @ [MsgDayFailed (current_day s)]))))"
  by pat_completeness auto
termination
  by (relation "measure (\<lambda>(solve, casefold, s, tr). 7 - current_day s)") auto

declare present_day_plan.simps [simp del]

text \<open>The end of \<open>process_day_review\<close>: the next day, or the final plan after day 7.\<close>

definition next_day ::
  "solver \<Rightarrow> (nat \<Rightarrow> nat) \<Rightarrow> session \<Rightarrow> effect list \<Rightarrow> (fsm \<times> effect list) outcome" where
  "next_day solve casefold s tr =
     (if current_day s < 7
      then present_day_plan solve casefold (s\<lparr>current_day := current_day s + 1\<rparr>) tr
      else show_final_plan s tr)"

text \<open>
  \<open>process_day_review\<close>. Subscripting \<open>current_solution\<close> when the key is absent
  raises \<open>TypeError\<close>, on either answer.
\<close>

definition process_day_review ::
  "solver \<Rightarrow> (nat \<Rightarrow> nat) \<Rightarrow> response \<Rightarrow> session \<Rightarrow> effect list \<Rightarrow> (fsm \<times> effect list) outcome" where
  "process_day_review solve casefold user_response s tr =
     (case current_solution s of
        None \<Rightarrow> Raised TypeError (Reviewing s, tr)
      | Some cur \<Rightarrow>
          (case user_response of
             Accept \<Rightarrow>
               next_day solve casefold
                 (s\<lparr>weekly_plan := weekly_plan s @
                      [\<lparr>day = current_day s, diet = Some (products cur),
                        day_total_cost = total_cost cur\<rparr>]\<rparr>)
                 tr
           | Reject \<Rightarrow>
               (let n = (case day_attempts s (current_day s) of None \<Rightarrow> 0 | Some k \<Rightarrow> k) + 1;
                    s1 = s\<lparr>rejected_solutions := insert (ids cur) (rejected_solutions s),
                           day_attempts := (day_attempts s)(current_day s \<mapsto> n)\<rparr>
                in if n < 5
                   then present_day_plan solve casefold s1 (tr @ [MsgRetry])
                   else next_day solve casefold
                          (s1\<lparr>weekly_plan := weekly_plan s @ [failed_day (current_day s)]\<rparr>)
                          (tr @ [MsgBudgetExhausted (current_day s)]))))"

text \<open>
  The start of the week in \<open>generate_weekly_plan\<close>, once the targets are known: an
  empty plan, day 1, a fresh ledger, no counters.
\<close>

definition generate_weekly_plan ::
  "solver \<Rightarrow> (nat \<Rightarrow> nat) \<Rightarrow> product list \<Rightarrow> ustring list \<Rightarrow> targets \<Rightarrow> effect list \<Rightarrow>
   (fsm \<times> effect list) outcome" where
  "generate_weekly_plan solve casefold df excl tgt tr =
     present_day_plan solve casefold
       \<lparr>products_df = df, excluded_products = excl, nutrition = tgt, weekly_plan = [],
        current_day = 1, rejected_solutions = {}, day_attempts = Map.empty,
        current_solution = None\<rparr>
       tr"

text \<open>
  A button press reaches \<open>process_day_review\<close> only in the state \<open>reviewing_day\<close>.
  A run of presses stops at the first handler that raises.
\<close>

fun on_callback ::
  "solver \<Rightarrow> (nat \<Rightarrow> nat) \<Rightarrow> response \<Rightarrow> fsm \<times> effect list \<Rightarrow> (fsm \<times> effect list) outcome" where
  "on_callback solve casefold r (Reviewing s, tr) = process_day_review solve casefold r s tr"
| "on_callback solve casefold r (Cleared, tr) = Returned (Cleared, tr)"

fun run ::
  "solver \<Rightarrow> (nat \<Rightarrow> nat) \<Rightarrow> response list \<Rightarrow> (fsm \<times> effect list) outcome \<Rightarrow>
   (fsm \<times> effect list) outcome" where
  "run solve casefold [] w = w"
| "run solve casefold (r # rs) (Returned w) = run solve casefold rs (on_callback solve casefold r w)"
| "run solve casefold (r # rs) (Raised e w) = Raised e w"

section \<open>Notions used to state the properties\<close>

definition solves :: "effect list \<Rightarrow> lp_problem list" where
  "solves tr = concat (map (\<lambda>e. case e of SolverCall p \<Rightarrow> [p] | _ \<Rightarrow> []) tr)"

fun state_of :: "'a outcome \<Rightarrow> 'a" where
  "state_of (Returned s) = s"
| "state_of (Raised e s) = s"

function loop_passes ::
  "solver \<Rightarrow> product list \<Rightarrow> targets \<Rightarrow> nat option \<Rightarrow> search_state \<Rightarrow> nat" where
  "loop_passes solve df tgt dy st =
     (if length (solutions st) < max_solutions \<and> attempts st < attempt_limit
      then (case attempt solve df tgt dy st of
              Continue st' \<Rightarrow> Suc (loop_passes solve df tgt dy st')
            | Break st' \<Rightarrow> 1
            | Raise e st' \<Rightarrow> 1)
      else 0)"
  by pat_completeness auto
termination
  by (relation "measure (\<lambda>(solve, df, tgt, dy, st). attempt_limit - attempts st)")
     (auto simp: attempt_def Let_def split: if_splits)

declare loop_passes.simps [simp del]

text \<open>The ledger and the result list.\<close>

definition ledger_inv :: "product list \<Rightarrow> nat list set \<Rightarrow> search_state \<Rightarrow> bool" where
  "ledger_inv df L0 st =
     (L0 \<subseteq> rejected st \<and> distinct (map ids (solutions st)) \<and>
      ids ` set (solutions st) \<subseteq> rejected st - L0 \<and>
      (\<forall>r \<in> rejected st - L0. set r \<subseteq> {0..<length df}) \<and>
      length (solutions st) \<le> max_solutions \<and> attempts st \<le> attempt_limit)"

text \<open>The effects of one call: solver calls only, each for this day and this catalog.\<close>

definition trace_inv ::
  "product list \<Rightarrow> targets \<Rightarrow> nat option \<Rightarrow> nat list set \<Rightarrow> effect list \<Rightarrow> nat \<Rightarrow>
   search_state \<Rightarrow> bool" where
  "trace_inv df tgt dy L0 tr0 k st =
     (L0 \<subseteq> rejected st \<and>
      (\<exists>ps. trace st = tr0 @ map SolverCall ps \<and> length ps \<le> attempts st + k \<and>
            attempts st + k \<le> attempt_limit \<and>
            (\<forall>p \<in> set ps. \<exists>L. L0 \<subseteq> L \<and> p = formulate df tgt L dy)))"

text \<open>Why the loop was left.\<close>

definition exit_reason :: "solver \<Rightarrow> search_state outcome \<Rightarrow> bool" where
  "exit_reason solve out =
     (case out of
        Raised e st \<Rightarrow> True
      | Returned st \<Rightarrow>
          length (solutions st) = max_solutions \<or> attempts st = attempt_limit \<or>
          (\<exists>tr p. trace st = tr @ [SolverCall p] \<and> fst (solve tr p) \<noteq> Optimal))"

definition of_quantities :: "int list \<Rightarrow> nat \<Rightarrow> rat" where
  "of_quantities qs i = (if i < length qs then of_int (qs ! i) else 0)"

definition closed_problem :: "lp_problem \<Rightarrow> bool" where
  "closed_problem p =
     ((\<forall>v \<in> set (variables p). low_bound v = 0 \<and> up_bound v = 3 \<and> is_integer v) \<and>
      (\<forall>t \<in> set (objective p). fst t < length (variables p)) \<and>
      (\<forall>c \<in> constraints p. \<forall>t \<in> set (terms c). fst t < length (variables p)))"

definition exhaustive_solver :: solver where
  "exhaustive_solver tr p =
     (if closed_problem p
      then (case filter (\<lambda>l. lp_feasible p (of_quantities l))
                  (List.n_lists (length (variables p)) [0, 1, 2, 3]) of
              [] \<Rightarrow> (Infeasible, \<lambda>i. 0)
            | l # ls \<Rightarrow>
                (Optimal,
                 of_quantities (arg_min_list (\<lambda>l. lp_value (of_quantities l) (objective p)) (l # ls))))
      else (Undefined, \<lambda>i. 0))"

definition item :: "ustring \<Rightarrow> rat \<Rightarrow> rat \<Rightarrow> rat \<Rightarrow> rat \<Rightarrow> rat \<Rightarrow> product" where
  "item nm p f c k pr =
     \<lparr>name = Some nm, proteins = p, fats = f, carbs = c, calories = k, weight = 100, price = pr\<rparr>"

definition scenario_catalog :: "product list" where
  "scenario_catalog = [item [65] 10 5 20 170 2, item [66] 5 2 10 80 1]"

definition scenario_targets :: targets where
  "scenario_targets = \<lparr>proteins_target = 15, fats_target = 7, carbs_target = 30, daily_calories = 250\<rparr>"

fun ctl_state :: "'a loop_ctl \<Rightarrow> 'a" where
  "ctl_state (Continue s) = s"
| "ctl_state (Break s) = s"
| "ctl_state (Raise e s) = s"

definition initial_search :: "nat list set \<Rightarrow> effect list \<Rightarrow> search_state" where
  "initial_search L tr = \<lparr>solutions = [], rejected = L, attempts = 0, trace = tr\<rparr>"

text \<open>A loop state with one solution already collected, for the scenario of the specification.\<close>

definition partial_search :: search_state where
  "partial_search =
     \<lparr>solutions = [make_solution scenario_catalog [1, 1]], rejected = {[0, 1]}, attempts = 1,
      trace = [SolverCall (formulate scenario_catalog scenario_targets {} (Some 1))]\<rparr>"

text \<open>The tuples of the diets shown to the user, in order.\<close>

definition proposed :: "effect list \<Rightarrow> nat list list" where
  "proposed tr = concat (map (\<lambda>e. case e of AskConfirm d sol \<Rightarrow> [ids sol] | _ \<Rightarrow> []) tr)"

text \<open>What a search for a day leaves alone, and what it may only extend.\<close>

definition frame :: "session \<Rightarrow> session \<Rightarrow> bool" where
  "frame s0 s =
     (products_df s = products_df s0 \<and> excluded_products s = excluded_products s0 \<and>
      nutrition s = nutrition s0 \<and> day_attempts s = day_attempts s0 \<and>
      rejected_solutions s0 \<subseteq> rejected_solutions s \<and> current_day s0 \<le> current_day s \<and>
      weekly_plan s = weekly_plan s0 @ map failed_day [current_day s0..<current_day s])"

text \<open>The catalog every search of a conversation works on.\<close>

definition session_catalog :: "(nat \<Rightarrow> nat) \<Rightarrow> session \<Rightarrow> product list" where
  "session_catalog casefold s = exclude_products casefold (excluded_products s) (products_df s)"

definition day_problem :: "(nat \<Rightarrow> nat) \<Rightarrow> session \<Rightarrow> lp_problem \<Rightarrow> bool" where
  "day_problem casefold s0 p =
     (\<exists>d L. current_day s0 \<le> d \<and> rejected_solutions s0 \<subseteq> L \<and>
            p = formulate (session_catalog casefold s0) (nutrition s0) L (Some d))"

fun day_post ::
  "(nat \<Rightarrow> nat) \<Rightarrow> session \<Rightarrow> effect list \<Rightarrow> (fsm \<times> effect list) outcome \<Rightarrow> bool" where
  "day_post casefold s0 tr0 (Returned (Reviewing s', tr')) =
     (frame s0 s' \<and>
      (\<exists>ext sol. tr' = tr0 @ ext @ [AskConfirm (current_day s') sol] \<and> proposed ext = [] \<and>
         (\<forall>p \<in> set (solves ext). day_problem casefold s0 p) \<and>
         current_solution s' = Some sol \<and> ids sol \<notin> rejected_solutions s0 \<and>
         ids sol \<in> rejected_solutions s'))"
| "day_post casefold s0 tr0 (Returned (Cleared, tr')) =
     (\<exists>ext d. tr' = tr0 @ ext @
          [MsgFinalPlan (weekly_plan s0 @ map failed_day [current_day s0..<Suc d])
             (sum_list (map day_total_cost
                (weekly_plan s0 @ map failed_day [current_day s0..<Suc d])))] \<and>
        current_day s0 \<le> d \<and> proposed ext = [] \<and>
        (\<forall>p \<in> set (solves ext). day_problem casefold s0 p))"
| "day_post casefold s0 tr0 (Raised e (Reviewing s', tr')) =
     (e = KeyError \<and> frame s0 s' \<and>
      unknown_index (session_catalog casefold s0) (rejected_solutions s') \<and>
      (\<exists>ext. tr' = tr0 @ ext \<and> proposed ext = [] \<and>
         (\<forall>p \<in> set (solves ext). day_problem casefold s0 p)))"
| "day_post casefold s0 tr0 (Raised e (Cleared, tr')) = False"

text \<open>The loop invariant of \<open>present_day_plan\<close> over the days it skips.\<close>

definition day_pre :: "(nat \<Rightarrow> nat) \<Rightarrow> session \<Rightarrow> effect list \<Rightarrow> session \<Rightarrow> effect list \<Rightarrow> bool" where
  "day_pre cf s0 tr0 s tr =
     (frame s0 s \<and>
      (\<exists>ext. tr = tr0 @ ext \<and> proposed ext = [] \<and> (\<forall>p \<in> set (solves ext). day_problem cf s0 p)))"

text \<open>The data of a conversation when \<open>generate_weekly_plan\<close> starts the first day.\<close>

definition first_day :: "product list \<Rightarrow> ustring list \<Rightarrow> targets \<Rightarrow> session" where
  "first_day df excl tgt =
     \<lparr>products_df = df, excluded_products = excl, nutrition = tgt, weekly_plan = [],
      current_day = 1, rejected_solutions = {}, day_attempts = Map.empty,
      current_solution = None\<rparr>"

text \<open>\<open>attempts.get(current_day, 0)\<close>\<close>

definition retries :: "session \<Rightarrow> nat" where
  "retries s = (case day_attempts s (current_day s) of None \<Rightarrow> 0 | Some k \<Rightarrow> k)"

text \<open>
  The invariant of a week that started from a catalog, an exclusion list and targets:
  what holds whenever the dialogue waits for an answer, and after it has ended.
\<close>

definition week_problem ::
  "(nat \<Rightarrow> nat) \<Rightarrow> product list \<Rightarrow> ustring list \<Rightarrow> targets \<Rightarrow> lp_problem \<Rightarrow> bool" where
  "week_problem casefold df excl tgt p =
     (\<exists>d L. p = formulate (exclude_products casefold excl df) tgt L (Some d))"

definition search_ready ::
  "(nat \<Rightarrow> nat) \<Rightarrow> product list \<Rightarrow> ustring list \<Rightarrow> targets \<Rightarrow> session \<Rightarrow> effect list \<Rightarrow> bool" where
  "search_ready casefold df excl tgt s tr =
     (products_df s = df \<and> excluded_products s = excl \<and> nutrition s = tgt \<and>
      (\<forall>p \<in> set (solves tr). week_problem casefold df excl tgt p) \<and>
      distinct (proposed tr) \<and> set (proposed tr) \<subseteq> rejected_solutions s \<and>
      \<not> unknown_index (exclude_products casefold excl df) (rejected_solutions s) \<and>
      (\<forall>d. current_day s < d \<longrightarrow> day_attempts s d = None))"

fun week_inv ::
  "(nat \<Rightarrow> nat) \<Rightarrow> product list \<Rightarrow> ustring list \<Rightarrow> targets \<Rightarrow> fsm \<times> effect list \<Rightarrow> bool" where
  "week_inv casefold df excl tgt (Reviewing s, tr) =
     (search_ready casefold df excl tgt s tr \<and>
      (\<exists>cur. current_solution s = Some cur \<and> ids cur \<in> rejected_solutions s))"
| "week_inv casefold df excl tgt (Cleared, tr) =
     ((\<forall>p \<in> set (solves tr). week_problem casefold df excl tgt p) \<and> distinct (proposed tr))"

text \<open>The targets of the scenario with calories that no diet within the bounds reaches.\<close>

definition unreachable_targets :: targets where
  "unreachable_targets =
     \<lparr>proteins_target = 15, fats_target = 7, carbs_target = 30, daily_calories = 100000\<rparr>"

text \<open>
  The applications of the exclusion filter that a run has logged, in order: the number of
  rows each of them dropped.
\<close>

definition exclusions :: "effect list \<Rightarrow> nat list" where
  "exclusions tr = concat (map (\<lambda>e. case e of LogExcluded n \<Rightarrow> [n] | _ \<Rightarrow> []) tr)"

text \<open>
  The filter in the words of the specification: an item is dropped when one of the
  exclusion strings occurs in its name, letters compared up to case; an item without a
  name is kept.
\<close>

definition occurs_in :: "(nat \<Rightarrow> nat) \<Rightarrow> ustring \<Rightarrow> ustring \<Rightarrow> bool" where
  "occurs_in casefold e s =
     (\<exists>i \<in> set [0..<Suc (length s)]. take (length e) (drop i (map casefold s)) = map casefold e)"

definition filtered_catalog :: "(nat \<Rightarrow> nat) \<Rightarrow> ustring list \<Rightarrow> product list \<Rightarrow> product list" where
  "filtered_catalog casefold excl df =
     filter (\<lambda>p. case name p of
                   None \<Rightarrow> True
                 | Some s \<Rightarrow> \<not> (\<exists>e \<in> set excl. occurs_in casefold e s)) df"

text \<open>Case folding of the ASCII letters, and the scenario catalog with a third item \<open>C\<close>.\<close>

definition ascii_lower :: "nat \<Rightarrow> nat" where
  "ascii_lower c = (if 65 \<le> c \<and> c \<le> 90 then c + 32 else c)"

definition pantry :: "product list" where
  "pantry = scenario_catalog @ [item [67] 5 2 10 80 (1 / 2)]"

text \<open>
  What a stretch of the dialogue that starts in the conversation state \<open>s\<close> may add to
  the effects: diets whose tuples are new to the ledger of \<open>s\<close> and differ from one
  another, and solver problems that carry the cut of every tuple in that ledger.
\<close>

definition later_effects :: "session \<Rightarrow> effect list \<Rightarrow> bool" where
  "later_effects s ext =
     (distinct (proposed ext) \<and> set (proposed ext) \<inter> rejected_solutions s = {} \<and>
      (\<forall>p \<in> set (solves ext). avoid ` rejected_solutions s \<subseteq> constraints p))"

text \<open>
  A solver for scenarios with many diets. It tries the diets of a single portion of a
  single item, in catalog order, and returns the first that is feasible; every second call
  it gives up (a time limit).
\<close>

definition single_item_solver :: solver where
  "single_item_solver tr p =
     (if odd (length (solves tr)) then (NotSolved, \<lambda>i. 0)
      else (case filter (\<lambda>i. lp_feasible p (\<lambda>j. if j = i then 1 else 0))
                  [0..<length (variables p)] of
              [] \<Rightarrow> (Infeasible, \<lambda>i. 0)
            | i # rest \<Rightarrow> (Optimal, \<lambda>j. if j = i then 1 else 0)))"

text \<open>Six meals that each meet the targets of the scenario on their own.\<close>

definition six_meals :: "product list" where
  "six_meals = map (\<lambda>k. item [65 + k] 15 7 30 250 (of_nat (k + 1))) [0..<6]"

text \<open>A conversation on day 1 with the first of the six meals on display.\<close>

definition first_meal_shown :: session where
  "first_meal_shown =
     (first_day six_meals [] scenario_targets)
       \<lparr>rejected_solutions := {[0]},
        current_solution := Some (make_solution six_meals [1, 0, 0, 0, 0, 0])\<rparr>"

section \<open>Properties\<close>

subsection \<open>One pass\<close>

lemma attempt_Continue_attempts:
  "attempt solve df tgt dy st = Continue st' \<Longrightarrow> attempts st' = Suc (attempts st)"
  by (auto simp: attempt_def Let_def split: if_splits)

lemma solves_append [simp]: "solves (xs @ ys) = solves xs @ solves ys"
  by (simp add: solves_def)

lemma solves_SolverCall [simp]: "solves [SolverCall p] = [p]"
  by (simp add: solves_def)

lemma solves_Nil [simp]: "solves [] = []"
  by (simp add: solves_def)

lemma attempt_Raise:
  assumes "attempt solve df tgt dy st = Raise e st'"
  shows "e = KeyError \<and> st' = st \<and> unknown_index df (rejected st)"
  using assms by (auto simp: attempt_def Let_def split: if_splits)

lemma attempt_Break:
  assumes "attempt solve df tgt dy st = Break st'"
  shows "st' = st\<lparr>trace := trace st @ [SolverCall (formulate df tgt (rejected st) dy)]\<rparr> \<and>
         fst (solve (trace st) (formulate df tgt (rejected st) dy)) \<noteq> Optimal \<and>
         \<not> unknown_index df (rejected st)"
  using assms by (auto simp: attempt_def Let_def split: if_splits)

lemma attempt_Continue:
  assumes "attempt solve df tgt dy st = Continue st'"
  obtains (dup) v where
      "\<not> unknown_index df (rejected st)"
      "solve (trace st) (formulate df tgt (rejected st) dy) = (Optimal, v)"
      "ids (make_solution df (read_quantities df v)) \<in> rejected st"
      "st' = st\<lparr>trace := trace st @ [SolverCall (formulate df tgt (rejected st) dy)],
                 attempts := attempts st + 1\<rparr>"
  | (new) v where
      "\<not> unknown_index df (rejected st)"
      "solve (trace st) (formulate df tgt (rejected st) dy) = (Optimal, v)"
      "ids (make_solution df (read_quantities df v)) \<notin> rejected st"
      "st' = st\<lparr>trace := trace st @ [SolverCall (formulate df tgt (rejected st) dy)],
                 solutions := solutions st @ [make_solution df (read_quantities df v)],
                 rejected := insert (ids (make_solution df (read_quantities df v))) (rejected st),
                 attempts := attempts st + 1\<rparr>"
proof -
  obtain s v where sv: "solve (trace st) (formulate df tgt (rejected st) dy) = (s, v)"
    by (cases "solve (trace st) (formulate df tgt (rejected st) dy)")
  show thesis
  proof (cases "ids (make_solution df (read_quantities df v)) \<in> rejected st")
    case True
    then show ?thesis
      using assms sv dup[of v] by (auto simp: attempt_def Let_def split: if_splits)
  next
    case False
    then show ?thesis
      using assms sv new[of v] by (auto simp: attempt_def Let_def split: if_splits)
  qed
qed

lemma length_read_quantities [simp]: "length (read_quantities df v) = length df"
  by (simp add: read_quantities_def)

lemma ids_make_solution [simp]: "ids (make_solution df qs) = selected_ids qs"
  by (simp add: make_solution_def)

lemma quantities_make_solution [simp]: "quantities (make_solution df qs) = qs"
  by (simp add: make_solution_def)

lemma total_cost_make_solution [simp]:
  "total_cost (make_solution df qs) = weighted_sum price df qs"
  by (simp add: make_solution_def)

lemma set_selected_ids: "set (selected_ids qs) \<subseteq> {0..<length qs}"
  by (auto simp: selected_ids_def)

subsection \<open>The loop\<close>

lemma search_loop_rule:
  assumes "P st"
    and "\<And>s s'. P s \<Longrightarrow> length (solutions s) < max_solutions \<Longrightarrow> attempts s < attempt_limit \<Longrightarrow>
           attempt solve df tgt dy s = Continue s' \<Longrightarrow> P s'"
    and "\<And>s s'. P s \<Longrightarrow> length (solutions s) < max_solutions \<Longrightarrow> attempts s < attempt_limit \<Longrightarrow>
           attempt solve df tgt dy s = Break s' \<Longrightarrow> Q (Returned s')"
    and "\<And>s e s'. P s \<Longrightarrow> length (solutions s) < max_solutions \<Longrightarrow> attempts s < attempt_limit \<Longrightarrow>
           attempt solve df tgt dy s = Raise e s' \<Longrightarrow> Q (Raised e s')"
    and "\<And>s. P s \<Longrightarrow> \<not> (length (solutions s) < max_solutions \<and> attempts s < attempt_limit) \<Longrightarrow>
           Q (Returned s)"
  shows "Q (search_loop solve df tgt dy st)"
  using assms
proof (induction solve df tgt dy st rule: search_loop.induct)
  case (1 solve df tgt dy st)
  note inv = "1.prems"(1) and cont = "1.prems"(2) and brk = "1.prems"(3)
    and rs = "1.prems"(4) and fin = "1.prems"(5)
  show ?case
  proof (cases "length (solutions st) < max_solutions \<and> attempts st < attempt_limit")
    case False
    then show ?thesis using fin[OF inv] by (subst search_loop.simps) auto
  next
    case True
    show ?thesis
    proof (cases "attempt solve df tgt dy st")
      case (Continue s')
      have "P s'" using cont[of st s'] inv True Continue by simp
      then have "Q (search_loop solve df tgt dy s')"
        using "1.IH"[of s'] True Continue cont brk rs fin by blast
      then show ?thesis using True Continue by (subst search_loop.simps) simp
    next
      case (Break s')
      then show ?thesis using brk[of st s'] inv True by (subst search_loop.simps) simp
    next
      case (Raise e s')
      then show ?thesis using rs[of st e s'] inv True by (subst search_loop.simps) simp
    qed
  qed
qed

lemma ledger_inv_step:
  assumes "ledger_inv df L0 s" "length (solutions s) < max_solutions" "attempts s < attempt_limit"
    and "attempt solve df tgt dy s = Continue s'"
  shows "ledger_inv df L0 s'"
  using assms(4)
proof (cases rule: attempt_Continue)
  case (dup v)
  then show ?thesis using assms(1,3) by (simp add: ledger_inv_def)
next
  case (new v)
  have "set (selected_ids (read_quantities df v)) \<subseteq> {0..<length df}"
    using set_selected_ids[of "read_quantities df v"] by simp
  then show ?thesis using new assms(1,2,3)
    by (auto simp: ledger_inv_def)
qed

lemma search_loop_ledger:
  assumes "ledger_inv df L0 st"
  shows "ledger_inv df L0 (state_of (search_loop solve df tgt dy st))"
proof (rule search_loop_rule[where P = "ledger_inv df L0" and Q = "\<lambda>out. ledger_inv df L0 (state_of out)"])
  show "ledger_inv df L0 st" by fact
next
  fix s s' assume "ledger_inv df L0 s" "length (solutions s) < max_solutions"
    "attempts s < attempt_limit" "attempt solve df tgt dy s = Continue s'"
  then show "ledger_inv df L0 s'" by (rule ledger_inv_step)
next
  fix s s' assume a: "ledger_inv df L0 s" "attempt solve df tgt dy s = Break s'"
  show "ledger_inv df L0 (state_of (Returned s'))"
    using attempt_Break[OF a(2)] a(1) by (simp add: ledger_inv_def)
next
  fix s e s' assume "ledger_inv df L0 s" "attempt solve df tgt dy s = Raise e s'"
  then show "ledger_inv df L0 (state_of (Raised e s'))"
    by (auto dest!: attempt_Raise)
next
  fix s assume "ledger_inv df L0 s"
  then show "ledger_inv df L0 (state_of (Returned s))" by simp
qed

lemma ledger_inv_init:
  "ledger_inv df L \<lparr>solutions = [], rejected = L, attempts = 0, trace = tr\<rparr>"
  by (simp add: ledger_inv_def)

lemma find_all_solutions_ledger:
  "ledger_inv (exclude_products cf excl df) L
     (state_of (find_all_solutions solve cf df tgt excl L dy tr))"
  unfolding find_all_solutions_def Let_def
  by (rule search_loop_ledger) (rule ledger_inv_init)

text \<open>No \<open>KeyError\<close> from a ledger whose row numbers the catalog has.\<close>

lemma search_loop_no_raise:
  assumes "\<not> unknown_index df (rejected st)"
  shows "\<exists>st'. search_loop solve df tgt dy st = Returned st' \<and> \<not> unknown_index df (rejected st')"
proof (rule search_loop_rule[where P = "\<lambda>s. \<not> unknown_index df (rejected s)"
        and Q = "\<lambda>out. \<exists>st'. out = Returned st' \<and> \<not> unknown_index df (rejected st')"])
  show "\<not> unknown_index df (rejected st)" by fact
next
  fix s s' assume a: "\<not> unknown_index df (rejected s)" "attempt solve df tgt dy s = Continue s'"
  from a(2) show "\<not> unknown_index df (rejected s')"
  proof (cases rule: attempt_Continue)
    case (dup v)
    then show ?thesis using a(1) by simp
  next
    case (new v)
    have "set (selected_ids (read_quantities df v)) \<subseteq> {0..<length df}"
      using set_selected_ids[of "read_quantities df v"] by simp
    then show ?thesis using new a(1) by (auto simp: unknown_index_def)
  qed
next
  fix s s' assume "\<not> unknown_index df (rejected s)" "attempt solve df tgt dy s = Break s'"
  then show "\<exists>st'. Returned s' = Returned st' \<and> \<not> unknown_index df (rejected st')"
    by (auto dest!: attempt_Break)
next
  fix s :: search_state and e s'
  assume "\<not> unknown_index df (rejected s)" "attempt solve df tgt dy s = Raise e s'"
  then show "\<exists>st'. Raised e s' = Returned st' \<and> \<not> unknown_index df (rejected st')"
    by (auto dest!: attempt_Raise)
next
  fix s :: search_state assume "\<not> unknown_index df (rejected s)"
  then show "\<exists>st'. Returned s = Returned st' \<and> \<not> unknown_index df (rejected st')" by simp
qed

lemma search_loop_trace:
  assumes "trace_inv df tgt dy L0 tr0 0 st"
  shows "\<exists>k. trace_inv df tgt dy L0 tr0 k (state_of (search_loop solve df tgt dy st))"
proof (rule search_loop_rule[where P = "trace_inv df tgt dy L0 tr0 0"
        and Q = "\<lambda>out. \<exists>k. trace_inv df tgt dy L0 tr0 k (state_of out)"])
  show "trace_inv df tgt dy L0 tr0 0 st" by fact
next
  fix s s' assume a: "trace_inv df tgt dy L0 tr0 0 s" "attempts s < attempt_limit"
    "attempt solve df tgt dy s = Continue s'"
  from a(1) obtain ps where ps: "trace s = tr0 @ map SolverCall ps" "length ps \<le> attempts s"
    "\<forall>p \<in> set ps. \<exists>L. L0 \<subseteq> L \<and> p = formulate df tgt L dy" and sub: "L0 \<subseteq> rejected s"
    by (auto simp: trace_inv_def)
  have "trace s' = tr0 @ map SolverCall (ps @ [formulate df tgt (rejected s) dy]) \<and>
        attempts s' = attempts s + 1 \<and> L0 \<subseteq> rejected s'"
    using a(3) ps(1) sub by (cases rule: attempt_Continue) auto
  then show "trace_inv df tgt dy L0 tr0 0 s'"
    unfolding trace_inv_def using ps(2,3) a(2) sub
    by (intro conjI exI[of _ "ps @ [formulate df tgt (rejected s) dy]"]) auto
next
  fix s s' assume a: "trace_inv df tgt dy L0 tr0 0 s" "attempts s < attempt_limit"
    "attempt solve df tgt dy s = Break s'"
  from a(1) obtain ps where ps: "trace s = tr0 @ map SolverCall ps" "length ps \<le> attempts s"
    "\<forall>p \<in> set ps. \<exists>L. L0 \<subseteq> L \<and> p = formulate df tgt L dy" and sub: "L0 \<subseteq> rejected s"
    by (auto simp: trace_inv_def)
  have "trace s' = tr0 @ map SolverCall (ps @ [formulate df tgt (rejected s) dy]) \<and>
        attempts s' = attempts s \<and> L0 \<subseteq> rejected s'"
    using attempt_Break[OF a(3)] ps(1) sub by auto
  then have "trace_inv df tgt dy L0 tr0 1 s'"
    unfolding trace_inv_def using ps(2,3) a(2) sub
    by (intro conjI exI[of _ "ps @ [formulate df tgt (rejected s) dy]"]) auto
  then show "\<exists>k. trace_inv df tgt dy L0 tr0 k (state_of (Returned s'))" by auto
next
  fix s :: search_state and e s'
  assume "trace_inv df tgt dy L0 tr0 0 s" "attempt solve df tgt dy s = Raise e s'"
  then show "\<exists>k. trace_inv df tgt dy L0 tr0 k (state_of (Raised e s'))"
    by (auto dest!: attempt_Raise)
next
  fix s assume "trace_inv df tgt dy L0 tr0 0 s"
  then show "\<exists>k. trace_inv df tgt dy L0 tr0 k (state_of (Returned s))" by auto
qed

lemma loop_passes_bound: "loop_passes solve df tgt dy st \<le> attempt_limit - attempts st"
proof (induction solve df tgt dy st rule: loop_passes.induct)
  case (1 solve df tgt dy st)
  show ?case
  proof (cases "length (solutions st) < max_solutions \<and> attempts st < attempt_limit")
    case False
    then show ?thesis by (subst loop_passes.simps) auto
  next
    case True
    show ?thesis
    proof (cases "attempt solve df tgt dy st")
      case (Continue s')
      have "attempts s' = Suc (attempts st)"
        using Continue by (rule attempt_Continue_attempts)
      moreover have "loop_passes solve df tgt dy s' \<le> attempt_limit - attempts s'"
        using "1.IH"[of s'] True Continue by simp
      ultimately have "Suc (loop_passes solve df tgt dy s') \<le> attempt_limit - attempts st"
        using True by linarith
      then show ?thesis using True Continue by (subst loop_passes.simps) simp
    next
      case (Break s')
      then show ?thesis using True by (subst loop_passes.simps) (simp add: Suc_le_eq)
    next
      case (Raise e s')
      then show ?thesis using True by (subst loop_passes.simps) (simp add: Suc_le_eq)
    qed
  qed
qed

lemma search_loop_exit:
  assumes "ledger_inv df L0 st"
  shows "exit_reason solve (search_loop solve df tgt dy st)"
proof (rule search_loop_rule[where P = "ledger_inv df L0" and Q = "exit_reason solve"])
  show "ledger_inv df L0 st" by fact
next
  fix s s' assume "ledger_inv df L0 s" "length (solutions s) < max_solutions"
    "attempts s < attempt_limit" "attempt solve df tgt dy s = Continue s'"
  then show "ledger_inv df L0 s'" by (rule ledger_inv_step)
next
  fix s s' assume "attempt solve df tgt dy s = Break s'"
  from attempt_Break[OF this] show "exit_reason solve (Returned s')"
    by (auto simp: exit_reason_def)
next
  fix s :: search_state and e s'
  show "exit_reason solve (Raised e s')" by (simp add: exit_reason_def)
next
  fix s assume "ledger_inv df L0 s"
    "\<not> (length (solutions s) < max_solutions \<and> attempts s < attempt_limit)"
  then show "exit_reason solve (Returned s)"
    by (auto simp: exit_reason_def ledger_inv_def)
qed

text \<open>The calls of the whole function.\<close>

lemma find_all_solutions_trace:
  obtains ps where
    "trace (state_of (find_all_solutions solve cf df tgt excl L dy tr)) =
       tr @ (if excl \<noteq> [] then [LogExcluded (length df - length (exclude_products cf excl df))]
             else []) @ map SolverCall ps"
    and "length ps \<le> attempt_limit"
    and "\<forall>p \<in> set ps. \<exists>L'. L \<subseteq> L' \<and> p = formulate (exclude_products cf excl df) tgt L' dy"
proof -
  let ?df = "exclude_products cf excl df"
  let ?tr1 = "if excl \<noteq> [] then tr @ [LogExcluded (length df - length ?df)] else tr"
  let ?st0 = "\<lparr>solutions = [], rejected = L, attempts = 0, trace = ?tr1\<rparr>"
  have "trace_inv ?df tgt dy L ?tr1 0 ?st0"
    by (simp add: trace_inv_def)
  from search_loop_trace[OF this, of solve] obtain k ps where
    "trace (state_of (search_loop solve ?df tgt dy ?st0)) = ?tr1 @ map SolverCall ps"
    "length ps \<le> attempt_limit"
    "\<forall>p \<in> set ps. \<exists>L'. L \<subseteq> L' \<and> p = formulate ?df tgt L' dy"
    unfolding trace_inv_def by force
  then show thesis
    using that[of ps] by (simp add: find_all_solutions_def Let_def)
qed

lemma find_all_solutions_returns:
  assumes "\<not> unknown_index (exclude_products cf excl df) L"
  shows "\<exists>st. find_all_solutions solve cf df tgt excl L dy tr = Returned st \<and>
              \<not> unknown_index (exclude_products cf excl df) (rejected st)"
  unfolding find_all_solutions_def Let_def
  by (rule search_loop_no_raise) (simp add: assms)

lemma find_all_solutions_exit:
  "exit_reason solve (find_all_solutions solve cf df tgt excl L dy tr)"
  unfolding find_all_solutions_def Let_def
  by (rule search_loop_exit[where ?L0.0 = L]) (rule ledger_inv_init)

subsection \<open>The no-good cut\<close>

lemma lp_value_avoid: "lp_value q (terms (avoid S)) = sum_list (map q S)"
  by (simp add: lp_value_def avoid_def comp_def)

lemma sum_list_at_least:
  fixes f :: "nat \<Rightarrow> rat"
  assumes "\<forall>i \<in> set S. 1 \<le> f i"
  shows "of_nat (length S) \<le> sum_list (map f S)"
  using assms by (induction S) (auto intro: add_mono)

lemma sum_list_at_most:
  fixes f :: "nat \<Rightarrow> rat"
  assumes "\<forall>i \<in> set S. f i \<le> 1"
  shows "sum_list (map f S) \<le> of_nat (length S)"
  using assms by (induction S) (auto intro: add_mono)

lemma sum_list_one_missing:
  fixes f :: "nat \<Rightarrow> rat"
  assumes "\<forall>i \<in> set S. f i \<le> 1" and "j \<in> set S" and "f j \<le> 0"
  shows "sum_list (map f S) \<le> of_nat (length S) - 1"
  using assms
proof (induction S)
  case Nil
  then show ?case by simp
next
  case (Cons a S)
  show ?case
  proof (cases "f a \<le> 0")
    case True
    have "sum_list (map f S) \<le> of_nat (length S)"
      using Cons.prems(1) by (intro sum_list_at_most) simp
    then show ?thesis using True by simp
  next
    case False
    then have "j \<in> set S" using Cons.prems(2,3) by auto
    then have "sum_list (map f S) \<le> of_nat (length S) - 1"
      using Cons.IH Cons.prems by simp
    moreover have "f a \<le> 1" using Cons.prems(1) by simp
    ultimately show ?thesis by simp
  qed
qed

lemma selected_ids_iff: "i \<in> set (selected_ids qs) \<longleftrightarrow> i < length qs \<and> 0 < qs ! i"
  by (auto simp: selected_ids_def)

lemma sum_list_of_quantities:
  "sum_list (map (of_quantities qs) S) =
     of_int (sum_list (map (\<lambda>i. if i < length qs then qs ! i else 0) S))"
  by (induction S) (simp_all add: of_quantities_def)

subsection \<open>Passes of the loop\<close>

lemma inj_avoid: "avoid S = avoid S' \<Longrightarrow> S = S'"
proof -
  assume "avoid S = avoid S'"
  then have "map fst (terms (avoid S)) = map fst (terms (avoid S'))" by simp
  then show "S = S'" by (simp add: avoid_def comp_def)
qed

lemma solves_map_SolverCall [simp]: "solves (map SolverCall ps) = ps"
  by (induction ps) (simp_all add: solves_def)

lemma solves_LogExcluded [simp]: "solves [LogExcluded n] = []"
  by (simp add: solves_def)

lemma attempt_pass:
  "(\<exists>st'. attempt solve df tgt dy st = Continue st' \<and> attempts st' = attempts st + 1 \<and>
          (solutions st' \<noteq> solutions st \<longrightarrow>
             rejected st \<subset> rejected st' \<and> avoid ` rejected st \<subset> avoid ` rejected st')) \<or>
   (\<exists>st'. attempt solve df tgt dy st = Break st') \<or>
   (\<exists>e st'. attempt solve df tgt dy st = Raise e st')"
proof (cases "attempt solve df tgt dy st")
  case (Continue st')
  then show ?thesis
  proof (cases rule: attempt_Continue)
    case (dup v)
    then show ?thesis using Continue by simp
  next
    case (new v)
    let ?x = "ids (make_solution df (read_quantities df v))"
    have "avoid ?x \<notin> avoid ` rejected st" using new(3) inj_avoid by blast
    then have "avoid ` rejected st \<subset> avoid ` insert ?x (rejected st)" by auto
    moreover have "rejected st \<subset> insert ?x (rejected st)" using new(3) by auto
    ultimately show ?thesis using Continue new(4) by simp
  qed
next
  case (Break st')
  then show ?thesis by simp
next
  case (Raise e st')
  then show ?thesis by simp
qed

subsection \<open>The default argument\<close>

lemma avoid_in_constraints: "S \<in> L \<Longrightarrow> avoid S \<in> constraints (formulate df tgt L dy)"
  by (simp add: formulate_def)

lemma call_omitted:
  "call_find_all_solutions solve cf df tgt excl None dy defaults tr =
     (find_all_solutions solve cf df tgt
        (case excl of None \<Rightarrow> default_excluded_products defaults | Some e \<Rightarrow> e)
        (default_rejected_solutions defaults) dy tr,
      defaults\<lparr>default_rejected_solutions := rejected (state_of
        (find_all_solutions solve cf df tgt
           (case excl of None \<Rightarrow> default_excluded_products defaults | Some e \<Rightarrow> e)
           (default_rejected_solutions defaults) dy tr))\<rparr>)"
  by (cases "find_all_solutions solve cf df tgt
        (case excl of None \<Rightarrow> default_excluded_products defaults | Some e \<Rightarrow> e)
        (default_rejected_solutions defaults) dy tr")
     (simp_all add: call_find_all_solutions_def Let_def)

subsection \<open>One day of the dialogue\<close>

lemma proposed_simps [simp]:
  "proposed [] = []"
  "proposed (xs @ ys) = proposed xs @ proposed ys"
  "proposed [AskConfirm d sol] = [ids sol]"
  "proposed [SolverCall p] = []"
  "proposed [LogExcluded n] = []"
  "proposed [MsgDayFailed d] = []"
  "proposed [MsgRetry] = []"
  "proposed [MsgBudgetExhausted d] = []"
  "proposed [MsgFinalPlan wp c] = []"
  by (simp_all add: proposed_def)

lemma proposed_map_SolverCall [simp]: "proposed (map SolverCall ps) = []"
  by (induction ps) (simp_all add: proposed_def)

lemma solves_messages [simp]:
  "solves [AskConfirm d sol] = []"
  "solves [MsgDayFailed d] = []"
  "solves [MsgRetry] = []"
  "solves [MsgBudgetExhausted d] = []"
  "solves [MsgFinalPlan wp c] = []"
  by (simp_all add: solves_def)

lemma present_day_plan_rule:
  assumes "P s tr"
    and "\<And>s tr st. P s tr \<Longrightarrow>
           find_all_solutions solve cf (products_df s) (nutrition s) (excluded_products s)
             (rejected_solutions s) (Some (current_day s)) tr = Returned st \<Longrightarrow>
           solutions st = [] \<Longrightarrow> current_day s < 7 \<Longrightarrow>
           P (s\<lparr>rejected_solutions := rejected st,
                 weekly_plan := weekly_plan s @ [failed_day (current_day s)],
                 current_day := current_day s + 1\<rparr>)
             (trace st @ [MsgDayFailed (current_day s)])"
    and "\<And>s tr st sol rest. P s tr \<Longrightarrow>
           find_all_solutions solve cf (products_df s) (nutrition s) (excluded_products s)
             (rejected_solutions s) (Some (current_day s)) tr = Returned st \<Longrightarrow>
           solutions st = sol # rest \<Longrightarrow>
           Q (Returned (Reviewing (s\<lparr>rejected_solutions := rejected st,
                                      current_solution := Some sol\<rparr>),
                        trace st @ [AskConfirm (current_day s) sol]))"
    and "\<And>s tr st. P s tr \<Longrightarrow>
           find_all_solutions solve cf (products_df s) (nutrition s) (excluded_products s)
             (rejected_solutions s) (Some (current_day s)) tr = Returned st \<Longrightarrow>
           solutions st = [] \<Longrightarrow> \<not> current_day s < 7 \<Longrightarrow>
           Q (show_final_plan
                (s\<lparr>rejected_solutions := rejected st,
                   weekly_plan := weekly_plan s @ [failed_day (current_day s)]\<rparr>)
                (trace st @ [MsgDayFailed (current_day s)]))"
    and "\<And>s tr e st. P s tr \<Longrightarrow>
           find_all_solutions solve cf (products_df s) (nutrition s) (excluded_products s)
             (rejected_solutions s) (Some (current_day s)) tr = Raised e st \<Longrightarrow>
           Q (Raised e (Reviewing (s\<lparr>rejected_solutions := rejected st\<rparr>), trace st))"
  shows "Q (present_day_plan solve cf s tr)"
  using assms
proof (induction solve cf s tr rule: present_day_plan.induct)
  case (1 solve cf s tr)
  note inv = "1.prems"(1) and nxt = "1.prems"(2) and found = "1.prems"(3)
    and fin = "1.prems"(4) and rs = "1.prems"(5)
  let ?out = "find_all_solutions solve cf (products_df s) (nutrition s) (excluded_products s)
                (rejected_solutions s) (Some (current_day s)) tr"
  show ?case
  proof (cases ?out)
    case (Raised e st)
    then show ?thesis using rs[OF inv Raised] by (subst present_day_plan.simps) simp
  next
    case (Returned st)
    show ?thesis
    proof (cases "solutions st")
      case (Cons sol rest)
      then show ?thesis using found[OF inv Returned Cons] Returned
        by (subst present_day_plan.simps) simp
    next
      case Nil
      show ?thesis
      proof (cases "current_day s < 7")
        case False
        then show ?thesis using fin[OF inv Returned Nil False] Returned Nil
          by (subst present_day_plan.simps) simp
      next
        case True
        let ?s1 = "s\<lparr>rejected_solutions := rejected st,
                      weekly_plan := weekly_plan s @ [failed_day (current_day s)],
                      current_day := current_day s + 1\<rparr>"
        let ?tr1 = "trace st @ [MsgDayFailed (current_day s)]"
        have "P ?s1 ?tr1" by (rule nxt[OF inv Returned Nil True])
        then have "Q (present_day_plan solve cf ?s1 ?tr1)"
          using "1.IH"[OF Returned Nil True] nxt found fin rs by blast
        then show ?thesis using Returned Nil True
          by (subst present_day_plan.simps) simp
      qed
    qed
  qed
qed


lemma search_loop_raised:
  "\<forall>e st'. search_loop solve df tgt dy st = Raised e st' \<longrightarrow>
     e = KeyError \<and> unknown_index df (rejected st')"
proof (rule search_loop_rule[where P = "\<lambda>s. True"
        and Q = "\<lambda>out. \<forall>e st'. out = Raised e st' \<longrightarrow> e = KeyError \<and> unknown_index df (rejected st')"])
  fix s :: search_state and e s'
  assume "attempt solve df tgt dy s = Raise e s'"
  from attempt_Raise[OF this]
  show "\<forall>e' st'. Raised e s' = Raised e' st' \<longrightarrow> e' = KeyError \<and> unknown_index df (rejected st')"
    by simp
qed simp_all

lemma find_all_solutions_raised:
  assumes "find_all_solutions solve cf df tgt excl L dy tr = Raised e st"
  shows "e = KeyError \<and> unknown_index (exclude_products cf excl df) (rejected st)"
  using assms search_loop_raised unfolding find_all_solutions_def Let_def by blast

lemma day_search_facts:
  assumes "frame s0 s"
    and "find_all_solutions solve cf (products_df s) (nutrition s) (excluded_products s)
           (rejected_solutions s) (Some (current_day s)) tr = out"
  obtains ext where "trace (state_of out) = tr @ ext" and "proposed ext = []"
    and "\<forall>p \<in> set (solves ext). day_problem cf s0 p"
    and "rejected_solutions s \<subseteq> rejected (state_of out)"
    and "\<forall>sol \<in> set (solutions (state_of out)).
           ids sol \<notin> rejected_solutions s \<and> ids sol \<in> rejected (state_of out)"
proof -
  let ?df = "exclude_products cf (excluded_products s) (products_df s)"
  let ?log = "if excluded_products s \<noteq> []
              then [LogExcluded (length (products_df s) - length ?df)] else []"
  obtain ps where ps:
    "trace (state_of out) = tr @ ?log @ map SolverCall ps"
    "length ps \<le> attempt_limit"
    "\<forall>p \<in> set ps. \<exists>L'. rejected_solutions s \<subseteq> L' \<and>
        p = formulate ?df (nutrition s) L' (Some (current_day s))"
    unfolding assms(2)[symmetric]
    by (rule find_all_solutions_trace[of solve cf "products_df s" "nutrition s"
          "excluded_products s" "rejected_solutions s" "Some (current_day s)" tr])
  have led: "ledger_inv ?df (rejected_solutions s) (state_of out)"
    unfolding assms(2)[symmetric] by (rule find_all_solutions_ledger)
  have cat: "?df = session_catalog cf s0"
    using assms(1) by (simp add: frame_def session_catalog_def)
  have sv: "solves (?log @ map SolverCall ps) = ps" by simp
  have good: "\<forall>p \<in> set (solves (?log @ map SolverCall ps)). day_problem cf s0 p"
    unfolding sv
  proof
    fix p assume "p \<in> set ps"
    then obtain L' where "rejected_solutions s \<subseteq> L'"
      "p = formulate ?df (nutrition s) L' (Some (current_day s))"
      using ps(3) by blast
    then show "day_problem cf s0 p"
      using assms(1) cat unfolding day_problem_def frame_def
      by (intro exI[of _ "current_day s"] exI[of _ L']) auto
  qed
  show thesis
  proof (rule that[of "?log @ map SolverCall ps"])
    show "trace (state_of out) = tr @ ?log @ map SolverCall ps" by (rule ps(1))
    show "proposed (?log @ map SolverCall ps) = []" by simp
    show "\<forall>p \<in> set (solves (?log @ map SolverCall ps)). day_problem cf s0 p" by (rule good)
    show "rejected_solutions s \<subseteq> rejected (state_of out)"
      using led by (simp add: ledger_inv_def)
    show "\<forall>sol \<in> set (solutions (state_of out)).
           ids sol \<notin> rejected_solutions s \<and> ids sol \<in> rejected (state_of out)"
      using led by (auto simp: ledger_inv_def)
  qed
qed


lemma day_search_returned:
  assumes "frame s0 s"
    and "find_all_solutions solve cf (products_df s) (nutrition s) (excluded_products s)
           (rejected_solutions s) (Some (current_day s)) tr = Returned st"
  obtains ext where "trace st = tr @ ext" and "proposed ext = []"
    and "\<forall>p \<in> set (solves ext). day_problem cf s0 p"
    and "rejected_solutions s \<subseteq> rejected st"
    and "\<forall>sol \<in> set (solutions st). ids sol \<notin> rejected_solutions s \<and> ids sol \<in> rejected st"
proof -
  note f = day_search_facts[OF assms, simplified]
  show thesis by (rule f) (rule that, assumption+)
qed

lemma day_search_raised:
  assumes "frame s0 s"
    and "find_all_solutions solve cf (products_df s) (nutrition s) (excluded_products s)
           (rejected_solutions s) (Some (current_day s)) tr = Raised e st"
  obtains ext where "trace st = tr @ ext" and "proposed ext = []"
    and "\<forall>p \<in> set (solves ext). day_problem cf s0 p"
    and "rejected_solutions s \<subseteq> rejected st"
    and "\<forall>sol \<in> set (solutions st). ids sol \<notin> rejected_solutions s \<and> ids sol \<in> rejected st"
proof -
  note f = day_search_facts[OF assms, simplified]
  show thesis by (rule f) (rule that, assumption+)
qed

lemma frame_refl: "frame s s"
  by (simp add: frame_def)

lemma present_day_plan_post: "day_post cf s0 tr0 (present_day_plan solve cf s0 tr0)"
proof (rule present_day_plan_rule[where P = "day_pre cf s0 tr0" and Q = "day_post cf s0 tr0"])
  show "day_pre cf s0 tr0 s0 tr0"
    by (simp add: day_pre_def frame_refl)
next
  fix s tr st
  assume pre: "day_pre cf s0 tr0 s tr"
    and out: "find_all_solutions solve cf (products_df s) (nutrition s) (excluded_products s)
           (rejected_solutions s) (Some (current_day s)) tr = Returned st"
    and "solutions st = []" "current_day s < 7"
  from pre obtain ext0 where fr: "frame s0 s" and e0: "tr = tr0 @ ext0" "proposed ext0 = []"
    "\<forall>p \<in> set (solves ext0). day_problem cf s0 p"
    by (auto simp: day_pre_def)
  obtain ext where e: "trace st = tr @ ext" "proposed ext = []"
    "\<forall>p \<in> set (solves ext). day_problem cf s0 p" "rejected_solutions s \<subseteq> rejected st"
    "\<forall>x \<in> set (solutions st). ids x \<notin> rejected_solutions s \<and> ids x \<in> rejected st"
    by (rule day_search_returned[OF fr out])
  let ?s1 = "s\<lparr>rejected_solutions := rejected st,
                weekly_plan := weekly_plan s @ [failed_day (current_day s)],
                current_day := current_day s + 1\<rparr>"
  have "frame s0 ?s1" using fr e(4) by (auto simp: frame_def)
  moreover have "trace st @ [MsgDayFailed (current_day s)] = tr0 @ (ext0 @ ext @ [MsgDayFailed (current_day s)])"
    using e0(1) e(1) by simp
  moreover have "proposed (ext0 @ ext @ [MsgDayFailed (current_day s)]) = []"
    using e0(2) e(2) by simp
  moreover have "\<forall>p \<in> set (solves (ext0 @ ext @ [MsgDayFailed (current_day s)])). day_problem cf s0 p"
    using e0(3) e(3) by auto
  ultimately show "day_pre cf s0 tr0 ?s1 (trace st @ [MsgDayFailed (current_day s)])"
    unfolding day_pre_def by blast
next
  fix s tr st sol rest
  assume pre: "day_pre cf s0 tr0 s tr"
    and out: "find_all_solutions solve cf (products_df s) (nutrition s) (excluded_products s)
           (rejected_solutions s) (Some (current_day s)) tr = Returned st"
    and sols: "solutions st = sol # rest"
  from pre obtain ext0 where fr: "frame s0 s" and e0: "tr = tr0 @ ext0" "proposed ext0 = []"
    "\<forall>p \<in> set (solves ext0). day_problem cf s0 p"
    by (auto simp: day_pre_def)
  obtain ext where e: "trace st = tr @ ext" "proposed ext = []"
    "\<forall>p \<in> set (solves ext). day_problem cf s0 p" "rejected_solutions s \<subseteq> rejected st"
    "\<forall>x \<in> set (solutions st). ids x \<notin> rejected_solutions s \<and> ids x \<in> rejected st"
    by (rule day_search_returned[OF fr out])
  let ?s1 = "s\<lparr>rejected_solutions := rejected st, current_solution := Some sol\<rparr>"
  have f1: "frame s0 ?s1" using fr e(4) by (auto simp: frame_def)
  have new: "ids sol \<notin> rejected_solutions s0" "ids sol \<in> rejected st"
    using e(5) sols fr by (auto simp: frame_def)
  have "trace st @ [AskConfirm (current_day s) sol] =
          tr0 @ (ext0 @ ext) @ [AskConfirm (current_day ?s1) sol]"
    using e0(1) e(1) by simp
  moreover have "proposed (ext0 @ ext) = []" using e0(2) e(2) by simp
  moreover have "\<forall>p \<in> set (solves (ext0 @ ext)). day_problem cf s0 p"
    using e0(3) e(3) by auto
  ultimately have "\<exists>ext' sol'. trace st @ [AskConfirm (current_day s) sol] =
        tr0 @ ext' @ [AskConfirm (current_day ?s1) sol'] \<and> proposed ext' = [] \<and>
        (\<forall>p \<in> set (solves ext'). day_problem cf s0 p) \<and>
        current_solution ?s1 = Some sol' \<and> ids sol' \<notin> rejected_solutions s0 \<and>
        ids sol' \<in> rejected_solutions ?s1"
    using new by (intro exI[of _ "ext0 @ ext"] exI[of _ sol]) simp
  then show "day_post cf s0 tr0
          (Returned (Reviewing ?s1, trace st @ [AskConfirm (current_day s) sol]))"
    using f1 by (simp only: day_post.simps; blast)
next
  fix s tr st
  assume pre: "day_pre cf s0 tr0 s tr"
    and out: "find_all_solutions solve cf (products_df s) (nutrition s) (excluded_products s)
           (rejected_solutions s) (Some (current_day s)) tr = Returned st"
    and "solutions st = []" "\<not> current_day s < 7"
  from pre obtain ext0 where fr: "frame s0 s" and e0: "tr = tr0 @ ext0" "proposed ext0 = []"
    "\<forall>p \<in> set (solves ext0). day_problem cf s0 p"
    by (auto simp: day_pre_def)
  obtain ext where e: "trace st = tr @ ext" "proposed ext = []"
    "\<forall>p \<in> set (solves ext). day_problem cf s0 p" "rejected_solutions s \<subseteq> rejected st"
    "\<forall>x \<in> set (solutions st). ids x \<notin> rejected_solutions s \<and> ids x \<in> rejected st"
    by (rule day_search_returned[OF fr out])
  let ?wp = "weekly_plan s0 @ map failed_day [current_day s0..<Suc (current_day s)]"
  have wp: "weekly_plan s @ [failed_day (current_day s)] = ?wp"
    using fr by (simp add: frame_def)
  let ?ext = "ext0 @ ext @ [MsgDayFailed (current_day s)]"
  have "(trace st @ [MsgDayFailed (current_day s)]) @
          [MsgFinalPlan ?wp (sum_list (map day_total_cost ?wp))] =
        tr0 @ ?ext @ [MsgFinalPlan ?wp (sum_list (map day_total_cost ?wp))]"
    using e0(1) e(1) by simp
  moreover have "current_day s0 \<le> current_day s" using fr by (simp add: frame_def)
  moreover have "proposed ?ext = []" using e0(2) e(2) by simp
  moreover have "\<forall>p \<in> set (solves ?ext). day_problem cf s0 p" using e0(3) e(3) by auto
  ultimately have "day_post cf s0 tr0 (Returned (Cleared,
      (trace st @ [MsgDayFailed (current_day s)]) @
        [MsgFinalPlan ?wp (sum_list (map day_total_cost ?wp))]))"
    by (simp only: day_post.simps; blast)
  then show "day_post cf s0 tr0
          (show_final_plan
            (s\<lparr>rejected_solutions := rejected st,
               weekly_plan := weekly_plan s @ [failed_day (current_day s)]\<rparr>)
            (trace st @ [MsgDayFailed (current_day s)]))"
    by (simp add: show_final_plan_def wp)
next
  fix s tr e st
  assume pre: "day_pre cf s0 tr0 s tr"
    and out: "find_all_solutions solve cf (products_df s) (nutrition s) (excluded_products s)
           (rejected_solutions s) (Some (current_day s)) tr = Raised e st"
  from pre obtain ext0 where fr: "frame s0 s" and e0: "tr = tr0 @ ext0" "proposed ext0 = []"
    "\<forall>p \<in> set (solves ext0). day_problem cf s0 p"
    by (auto simp: day_pre_def)
  obtain ext where e: "trace st = tr @ ext" "proposed ext = []"
    "\<forall>p \<in> set (solves ext). day_problem cf s0 p" "rejected_solutions s \<subseteq> rejected st"
    "\<forall>x \<in> set (solutions st). ids x \<notin> rejected_solutions s \<and> ids x \<in> rejected st"
    by (rule day_search_raised[OF fr out])
  have key: "e = KeyError" "unknown_index (session_catalog cf s0) (rejected st)"
    using find_all_solutions_raised[OF out] fr by (simp_all add: frame_def session_catalog_def)
  have f1: "frame s0 (s\<lparr>rejected_solutions := rejected st\<rparr>)"
    using fr e(4) by (auto simp: frame_def)
  have "trace st = tr0 @ (ext0 @ ext)" using e0(1) e(1) by simp
  moreover have "proposed (ext0 @ ext) = []" using e0(2) e(2) by simp
  moreover have "\<forall>p \<in> set (solves (ext0 @ ext)). day_problem cf s0 p" using e0(3) e(3) by auto
  ultimately show "day_post cf s0 tr0
      (Raised e (Reviewing (s\<lparr>rejected_solutions := rejected st\<rparr>), trace st))"
    using key f1 by (simp only: day_post.simps; auto)
qed

subsection \<open>A whole week\<close>

lemma find_all_solutions_Returned_known:
  assumes "find_all_solutions solve cf df tgt excl L dy tr = Returned st"
  shows "\<not> unknown_index (exclude_products cf excl df) L"
proof
  assume "unknown_index (exclude_products cf excl df) L"
  then have "find_all_solutions solve cf df tgt excl L dy tr =
      Raised KeyError \<lparr>solutions = [], rejected = L, attempts = 0,
        trace = (if excl \<noteq> [] then tr @ [LogExcluded (length df - length (exclude_products cf excl df))]
                 else tr)\<rparr>"
    unfolding find_all_solutions_def Let_def
    by (subst search_loop.simps) (simp add: attempt_def max_solutions_def attempt_limit_def)
  then show False using assms by simp
qed

lemma find_all_solutions_keeps_known:
  assumes "find_all_solutions solve cf df tgt excl L dy tr = Returned st"
  shows "\<not> unknown_index (exclude_products cf excl df) (rejected st)"
  using find_all_solutions_returns[OF find_all_solutions_Returned_known[OF assms],
      of solve tgt dy tr] assms
  by simp

lemma present_day_plan_no_raise:
  assumes "\<not> unknown_index (session_catalog cf s0) (rejected_solutions s0)"
  shows "\<exists>w. present_day_plan solve cf s0 tr0 = Returned w \<and>
             (\<forall>s'. fst w = Reviewing s' \<longrightarrow>
                \<not> unknown_index (session_catalog cf s0) (rejected_solutions s'))"
proof (rule present_day_plan_rule[where
      P = "\<lambda>s tr. session_catalog cf s = session_catalog cf s0 \<and>
                   \<not> unknown_index (session_catalog cf s0) (rejected_solutions s)"
      and Q = "\<lambda>out. \<exists>w. out = Returned w \<and>
             (\<forall>s'. fst w = Reviewing s' \<longrightarrow>
                \<not> unknown_index (session_catalog cf s0) (rejected_solutions s'))"])
  show "session_catalog cf s0 = session_catalog cf s0 \<and>
        \<not> unknown_index (session_catalog cf s0) (rejected_solutions s0)"
    using assms by simp
next
  fix s tr st
  assume a: "session_catalog cf s = session_catalog cf s0 \<and>
        \<not> unknown_index (session_catalog cf s0) (rejected_solutions s)"
    and out: "find_all_solutions solve cf (products_df s) (nutrition s) (excluded_products s)
           (rejected_solutions s) (Some (current_day s)) tr = Returned st"
  have "\<not> unknown_index (session_catalog cf s) (rejected st)"
    using find_all_solutions_keeps_known[OF out] by (simp add: session_catalog_def)
  then show "session_catalog cf
          (s\<lparr>rejected_solutions := rejected st,
             weekly_plan := weekly_plan s @ [failed_day (current_day s)],
             current_day := current_day s + 1\<rparr>) = session_catalog cf s0 \<and>
        \<not> unknown_index (session_catalog cf s0)
            (rejected_solutions
              (s\<lparr>rejected_solutions := rejected st,
                 weekly_plan := weekly_plan s @ [failed_day (current_day s)],
                 current_day := current_day s + 1\<rparr>))"
    using a by (simp add: session_catalog_def)
next
  fix s tr st sol rest
  assume a: "session_catalog cf s = session_catalog cf s0 \<and>
        \<not> unknown_index (session_catalog cf s0) (rejected_solutions s)"
    and out: "find_all_solutions solve cf (products_df s) (nutrition s) (excluded_products s)
           (rejected_solutions s) (Some (current_day s)) tr = Returned st"
  have "\<not> unknown_index (session_catalog cf s) (rejected st)"
    using find_all_solutions_keeps_known[OF out] by (simp add: session_catalog_def)
  then show "\<exists>w. Returned (Reviewing (s\<lparr>rejected_solutions := rejected st,
                                          current_solution := Some sol\<rparr>),
                          trace st @ [AskConfirm (current_day s) sol]) = Returned w \<and>
             (\<forall>s'. fst w = Reviewing s' \<longrightarrow>
                \<not> unknown_index (session_catalog cf s0) (rejected_solutions s'))"
    using a by simp
next
  fix s :: session and tr :: "effect list" and st :: search_state
  show "\<exists>w. show_final_plan
              (s\<lparr>rejected_solutions := rejected st,
                 weekly_plan := weekly_plan s @ [failed_day (current_day s)]\<rparr>)
              (trace st @ [MsgDayFailed (current_day s)]) = Returned w \<and>
             (\<forall>s'. fst w = Reviewing s' \<longrightarrow>
                \<not> unknown_index (session_catalog cf s0) (rejected_solutions s'))"
    by (simp add: show_final_plan_def)
next
  fix s tr e st
  assume a: "session_catalog cf s = session_catalog cf s0 \<and>
        \<not> unknown_index (session_catalog cf s0) (rejected_solutions s)"
    and out: "find_all_solutions solve cf (products_df s) (nutrition s) (excluded_products s)
           (rejected_solutions s) (Some (current_day s)) tr = Raised e st"
  have "\<not> unknown_index (exclude_products cf (excluded_products s) (products_df s))
          (rejected_solutions s)"
    using a by (simp add: session_catalog_def)
  from find_all_solutions_returns[OF this, of solve "nutrition s" "Some (current_day s)" tr]
  have False using out by simp
  then show "\<exists>w. Raised e (Reviewing (s\<lparr>rejected_solutions := rejected st\<rparr>), trace st) =
                  Returned w \<and>
             (\<forall>s'. fst w = Reviewing s' \<longrightarrow>
                \<not> unknown_index (session_catalog cf s0) (rejected_solutions s'))"
    by simp
qed


lemma present_day_plan_week:
  assumes "search_ready cf df excl tgt s tr"
  shows "\<exists>w. present_day_plan solve cf s tr = Returned w \<and> week_inv cf df excl tgt w"
proof -
  have cat: "session_catalog cf s = exclude_products cf excl df"
    using assms by (simp add: search_ready_def session_catalog_def)
  have known: "\<not> unknown_index (session_catalog cf s) (rejected_solutions s)"
    using assms cat by (simp add: search_ready_def)
  from present_day_plan_no_raise[OF known, of solve tr]
  obtain w where w: "present_day_plan solve cf s tr = Returned w"
    and ok: "\<forall>s'. fst w = Reviewing s' \<longrightarrow>
               \<not> unknown_index (session_catalog cf s) (rejected_solutions s')"
    by blast
  have post: "day_post cf s tr (Returned w)"
    using present_day_plan_post[of cf s tr solve] w by simp
  have wk: "week_problem cf df excl tgt p" if "day_problem cf s p" for p
    using that assms cat unfolding day_problem_def week_problem_def
    by (auto simp: search_ready_def)
  obtain f tr' where wf: "w = (f, tr')" by (cases w)
  have "week_inv cf df excl tgt (f, tr')"
  proof (cases f)
    case (Reviewing s')
    from post obtain ext sol where fr: "frame s s'"
      and tr': "tr' = tr @ ext @ [AskConfirm (current_day s') sol]"
      and pe: "proposed ext = []"
      and se: "\<forall>p \<in> set (solves ext). day_problem cf s p"
      and cur: "current_solution s' = Some sol"
      and fresh: "ids sol \<notin> rejected_solutions s"
      and inl: "ids sol \<in> rejected_solutions s'"
      unfolding wf Reviewing by auto
    have "products_df s' = df \<and> excluded_products s' = excl \<and> nutrition s' = tgt"
      using fr assms by (simp add: frame_def search_ready_def)
    moreover have "\<forall>p \<in> set (solves tr'). week_problem cf df excl tgt p"
      using assms se wk by (auto simp: tr' search_ready_def)
    moreover have "distinct (proposed tr')"
      using assms fresh pe by (auto simp: tr' search_ready_def)
    moreover have "set (proposed tr') \<subseteq> rejected_solutions s'"
      using assms fr inl pe by (auto simp: tr' search_ready_def frame_def)
    moreover have "\<not> unknown_index (exclude_products cf excl df) (rejected_solutions s')"
      using ok cat by (simp add: wf Reviewing)
    moreover have "\<forall>d. current_day s' < d \<longrightarrow> day_attempts s' d = None"
      using assms fr by (auto simp: search_ready_def frame_def)
    ultimately have "search_ready cf df excl tgt s' tr'"
      unfolding search_ready_def by blast
    then show ?thesis using cur inl by (simp add: Reviewing)
  next
    case Cleared
    from post obtain ext d where
      tr': "tr' = tr @ ext @
          [MsgFinalPlan (weekly_plan s @ map failed_day [current_day s..<Suc d])
             (sum_list (map day_total_cost
                (weekly_plan s @ map failed_day [current_day s..<Suc d])))]"
      and pe: "proposed ext = []"
      and se: "\<forall>p \<in> set (solves ext). day_problem cf s p"
      unfolding wf Cleared by auto
    have "\<forall>p \<in> set (solves tr'). week_problem cf df excl tgt p"
      using assms se wk by (auto simp: tr' search_ready_def)
    moreover have "distinct (proposed tr')"
      using assms pe by (auto simp: tr' search_ready_def)
    ultimately show ?thesis by (simp add: Cleared)
  qed
  then show ?thesis using w wf by simp
qed

lemma search_ready_plan [simp]:
  "search_ready cf df excl tgt (s\<lparr>weekly_plan := wp\<rparr>) tr = search_ready cf df excl tgt s tr"
  by (simp add: search_ready_def)

lemma search_ready_message:
  assumes "search_ready cf df excl tgt s tr" and "solves [m] = []" and "proposed [m] = []"
  shows "search_ready cf df excl tgt s (tr @ [m])"
  using assms by (simp add: search_ready_def)

lemma next_day_week:
  assumes "search_ready cf df excl tgt s tr"
  shows "\<exists>w. next_day solve cf s tr = Returned w \<and> week_inv cf df excl tgt w"
proof (cases "current_day s < 7")
  case True
  have "search_ready cf df excl tgt (s\<lparr>current_day := current_day s + 1\<rparr>) tr"
    using assms by (simp add: search_ready_def)
  from present_day_plan_week[OF this, of solve] show ?thesis
    using True by (simp add: next_day_def)
next
  case False
  then show ?thesis using assms
    by (simp add: next_day_def show_final_plan_def search_ready_def)
qed

lemma process_day_review_week:
  assumes "week_inv cf df excl tgt (Reviewing s, tr)"
  shows "\<exists>w. process_day_review solve cf r s tr = Returned w \<and> week_inv cf df excl tgt w"
proof -
  from assms obtain cur where ready: "search_ready cf df excl tgt s tr"
    and cur: "current_solution s = Some cur" "ids cur \<in> rejected_solutions s"
    by auto
  show ?thesis
  proof (cases r)
    case Accept
    let ?s1 = "s\<lparr>weekly_plan := weekly_plan s @
                [\<lparr>day = current_day s, diet = Some (products cur),
                  day_total_cost = total_cost cur\<rparr>]\<rparr>"
    have "search_ready cf df excl tgt ?s1 tr" using ready by simp
    from next_day_week[OF this, of solve] show ?thesis
      using cur(1) Accept by (simp add: process_day_review_def)
  next
    case Reject
    let ?n = "retries s + 1"
    let ?s1 = "s\<lparr>rejected_solutions := insert (ids cur) (rejected_solutions s),
                 day_attempts := (day_attempts s)(current_day s \<mapsto> ?n)\<rparr>"
    have ins: "insert (ids cur) (rejected_solutions s) = rejected_solutions s"
      using cur(2) by auto
    have r1: "search_ready cf df excl tgt ?s1 tr"
      using ready by (auto simp: search_ready_def ins)
    have eq: "process_day_review solve cf r s tr =
        (if ?n < 5 then present_day_plan solve cf ?s1 (tr @ [MsgRetry])
         else next_day solve cf
                (?s1\<lparr>weekly_plan := weekly_plan s @ [failed_day (current_day s)]\<rparr>)
                (tr @ [MsgBudgetExhausted (current_day s)]))"
      using cur(1) Reject by (simp add: process_day_review_def retries_def Let_def)
    show ?thesis
    proof (cases "?n < 5")
      case True
      have "search_ready cf df excl tgt ?s1 (tr @ [MsgRetry])"
        using r1 by (rule search_ready_message) simp_all
      from present_day_plan_week[OF this, of solve] show ?thesis
        using True eq by simp
    next
      case False
      have "search_ready cf df excl tgt
              (?s1\<lparr>weekly_plan := weekly_plan s @ [failed_day (current_day s)]\<rparr>)
              (tr @ [MsgBudgetExhausted (current_day s)])"
        using r1 by (simp only: search_ready_plan) (rule search_ready_message, simp_all)
      from next_day_week[OF this, of solve] show ?thesis
        using False eq by simp
    qed
  qed
qed

lemma run_week:
  assumes "week_inv cf df excl tgt w"
  shows "\<exists>w'. run solve cf rs (Returned w) = Returned w' \<and> week_inv cf df excl tgt w'"
  using assms
proof (induction rs arbitrary: w)
  case Nil
  then show ?case by simp
next
  case (Cons r rs)
  obtain f tr where w: "w = (f, tr)" by (cases w)
  have "\<exists>w1. on_callback solve cf r w = Returned w1 \<and> week_inv cf df excl tgt w1"
  proof (cases f)
    case (Reviewing s)
    then show ?thesis
      using process_day_review_week[of cf df excl tgt s tr solve r] Cons.prems w by simp
  next
    case Cleared
    then show ?thesis using Cons.prems w by simp
  qed
  then obtain w1 where w1: "on_callback solve cf r w = Returned w1" "week_inv cf df excl tgt w1"
    by blast
  from Cons.IH[OF w1(2)] show ?case using w1(1) by simp
qed

lemma generate_weekly_plan_first_day:
  "generate_weekly_plan solve cf df excl tgt tr =
     present_day_plan solve cf (first_day df excl tgt) tr"
  by (simp add: generate_weekly_plan_def first_day_def)

lemma generate_weekly_plan_week:
  "\<exists>w. generate_weekly_plan solve cf df excl tgt [] = Returned w \<and> week_inv cf df excl tgt w"
proof -
  have "search_ready cf df excl tgt (first_day df excl tgt) []"
    by (simp add: search_ready_def first_day_def unknown_index_def)
  from present_day_plan_week[OF this, of solve] show ?thesis
    by (simp add: generate_weekly_plan_first_day)
qed

lemma week_run:
  "\<exists>w. run solve cf rs (generate_weekly_plan solve cf df excl tgt []) = Returned w \<and>
       week_inv cf df excl tgt w"
proof -
  obtain w0 where "generate_weekly_plan solve cf df excl tgt [] = Returned w0"
    "week_inv cf df excl tgt w0"
    using generate_weekly_plan_week by blast
  then show ?thesis using run_week[of cf df excl tgt w0 solve rs] by simp
qed

subsection \<open>The exclusion filter\<close>

lemma exclusions_append [simp]: "exclusions (xs @ ys) = exclusions xs @ exclusions ys"
  by (simp add: exclusions_def)

lemma exclusions_Nil [simp]: "exclusions [] = []"
  by (simp add: exclusions_def)

lemma exclusions_map_SolverCall [simp]: "exclusions (map SolverCall ps) = []"
  by (induction ps) (simp_all add: exclusions_def)

lemma exclusions_LogExcluded [simp]: "exclusions [LogExcluded n] = [n]"
  by (simp add: exclusions_def)

lemma starts_with_take:
  "starts_with cf pat s \<longleftrightarrow> take (length pat) (map cf s) = map cf pat"
  by (induction cf pat s rule: starts_with.induct) auto

lemma ex_le_Suc_shift: "(\<exists>i \<le> Suc n. P i) \<longleftrightarrow> P 0 \<or> (\<exists>j \<le> n. P (Suc j))"
proof
  assume "\<exists>i \<le> Suc n. P i"
  then obtain i where i: "i \<le> Suc n" "P i" by blast
  show "P 0 \<or> (\<exists>j \<le> n. P (Suc j))"
  proof (cases i)
    case 0
    then show ?thesis using i by simp
  next
    case (Suc j)
    then show ?thesis using i by auto
  qed
next
  assume "P 0 \<or> (\<exists>j \<le> n. P (Suc j))"
  then show "\<exists>i \<le> Suc n. P i" by auto
qed

lemma occurs_in_le:
  "occurs_in cf e s \<longleftrightarrow> (\<exists>i \<le> length s. take (length e) (drop i (map cf s)) = map cf e)"
  by (simp add: occurs_in_def Bex_def less_Suc_eq_le del: upt_Suc)

lemma re_search_occurs_in: "re_search cf e s = occurs_in cf e s"
proof (induction s)
  case Nil
  show ?case by (simp add: occurs_in_le starts_with_take)
next
  case (Cons d ds)
  have "occurs_in cf e (d # ds) \<longleftrightarrow>
          take (length e) (drop 0 (map cf (d # ds))) = map cf e \<or>
          (\<exists>j \<le> length ds. take (length e) (drop (Suc j) (map cf (d # ds))) = map cf e)"
    unfolding occurs_in_le
    using ex_le_Suc_shift[of "length ds"
        "\<lambda>i. take (length e) (drop i (map cf (d # ds))) = map cf e"]
    by simp
  also have "\<dots> \<longleftrightarrow> starts_with cf e (d # ds) \<or> occurs_in cf e ds"
    by (simp add: starts_with_take occurs_in_le)
  finally show ?case using Cons.IH by simp
qed

lemma exclude_products_filtered_catalog:
  "exclude_products cf excl df = filtered_catalog cf excl df"
proof (cases "excl = []")
  case True
  have "\<forall>p \<in> set df. (case name p of None \<Rightarrow> True
              | Some s \<Rightarrow> \<not> (\<exists>e \<in> set excl. occurs_in cf e s))"
    using True by (simp split: option.splits)
  then have "filtered_catalog cf excl df = df"
    unfolding filtered_catalog_def by (simp only: filter_id_conv)
  then show ?thesis using True by (simp add: exclude_products_def)
next
  case False
  have eq: "(\<lambda>p. \<not> str_contains cf excl (name p)) =
        (\<lambda>p. case name p of None \<Rightarrow> True
              | Some s \<Rightarrow> \<not> (\<exists>e \<in> set excl. occurs_in cf e s))"
    by (rule ext) (simp add: str_contains_def re_search_occurs_in split: option.splits)
  show ?thesis
    by (simp only: exclude_products_def filtered_catalog_def False eq simp_thms if_True)
qed

lemma find_all_solutions_exclusions:
  "exclusions (trace (state_of (find_all_solutions solve cf df tgt excl L dy tr))) =
     exclusions tr @
     (if excl = [] then [] else [length df - length (exclude_products cf excl df)])"
proof -
  obtain ps where
    "trace (state_of (find_all_solutions solve cf df tgt excl L dy tr)) =
       tr @ (if excl \<noteq> [] then [LogExcluded (length df - length (exclude_products cf excl df))]
             else []) @ map SolverCall ps"
    "length ps \<le> attempt_limit"
    "\<forall>p \<in> set ps. \<exists>L'. L \<subseteq> L' \<and> p = formulate (exclude_products cf excl df) tgt L' dy"
    by (rule find_all_solutions_trace)
  then show ?thesis by simp
qed

lemma week_problems:
  "\<forall>p \<in> set (solves (snd (state_of
       (run solve cf rs (generate_weekly_plan solve cf df excl tgt []))))).
     \<exists>d L. p = formulate (exclude_products cf excl df) tgt L (Some d)"
proof -
  obtain w where w: "run solve cf rs (generate_weekly_plan solve cf df excl tgt []) = Returned w"
    "week_inv cf df excl tgt w"
    using week_run by blast
  obtain f tr where ftr: "w = (f, tr)" by (cases w)
  have "\<forall>p \<in> set (solves tr). week_problem cf df excl tgt p"
    using w(2) unfolding ftr by (cases f) (simp_all add: search_ready_def)
  then show ?thesis using w(1) ftr by (simp add: week_problem_def)
qed

lemma week_stored_catalog:
  assumes "fst (state_of (run solve cf rs (generate_weekly_plan solve cf df excl tgt []))) =
             Reviewing s"
  shows "products_df s = df \<and> excluded_products s = excl"
proof -
  obtain w where w: "run solve cf rs (generate_weekly_plan solve cf df excl tgt []) = Returned w"
    "week_inv cf df excl tgt w"
    using week_run by blast
  obtain f tr where ftr: "w = (f, tr)" by (cases w)
  have "f = Reviewing s" using assms w(1) ftr by simp
  then show ?thesis using w(2) ftr by (simp add: search_ready_def)
qed

subsection \<open>The ledger along a conversation\<close>

lemma run_Cleared [simp]: "run solve cf rs (Returned (Cleared, tr)) = Returned (Cleared, tr)"
  by (induction rs) simp_all

lemma run_Raised [simp]: "run solve cf rs (Raised e w) = Raised e w"
  by (cases rs) simp_all

lemma later_effects_Nil [simp]: "later_effects s []"
  by (simp add: later_effects_def solves_def)

lemma later_effectsI:
  assumes "distinct (proposed ext)" and "set (proposed ext) \<inter> rejected_solutions s = {}"
    and "\<forall>p \<in> set (solves ext). avoid ` rejected_solutions s \<subseteq> constraints p"
  shows "later_effects s ext"
  using assms by (simp add: later_effects_def)

lemma later_effectsD:
  assumes "later_effects s ext"
  shows "distinct (proposed ext)" and "set (proposed ext) \<inter> rejected_solutions s = {}"
    and "\<forall>p \<in> set (solves ext). avoid ` rejected_solutions s \<subseteq> constraints p"
  using assms by (simp_all add: later_effects_def)

lemma cuts_mono:
  assumes "\<forall>p \<in> set ps. avoid ` A \<subseteq> constraints p" and "B \<subseteq> A"
  shows "\<forall>p \<in> set ps. avoid ` B \<subseteq> constraints p"
proof
  fix p assume "p \<in> set ps"
  then have "avoid ` A \<subseteq> constraints p" using assms(1) by (rule bspec[rotated])
  moreover have "avoid ` B \<subseteq> avoid ` A" using assms(2) by (rule image_mono)
  ultimately show "avoid ` B \<subseteq> constraints p" by (rule subset_trans[rotated])
qed

lemma day_problem_cuts:
  assumes "day_problem cf s0 p" and "rejected_solutions s \<subseteq> rejected_solutions s0"
  shows "avoid ` rejected_solutions s \<subseteq> constraints p"
proof -
  obtain d L where L: "rejected_solutions s0 \<subseteq> L"
    and p: "p = formulate (session_catalog cf s0) (nutrition s0) L (Some d)"
    using assms(1) unfolding day_problem_def by blast
  show ?thesis
  proof
    fix c assume "c \<in> avoid ` rejected_solutions s"
    then obtain S where S: "S \<in> rejected_solutions s" "c = avoid S" by blast
    then have "S \<in> L" using assms(2) L by blast
    then show "c \<in> constraints p" unfolding p S(2) by (rule avoid_in_constraints)
  qed
qed

lemma present_day_plan_later:
  assumes "rejected_solutions s \<subseteq> rejected_solutions s0"
  shows "\<exists>ext. snd (state_of (present_day_plan solve cf s0 tr0)) = tr0 @ ext \<and>
           later_effects s0 ext \<and>
           (\<forall>p \<in> set (solves ext). avoid ` rejected_solutions s \<subseteq> constraints p) \<and>
           (\<forall>s'. fst (state_of (present_day_plan solve cf s0 tr0)) = Reviewing s' \<longrightarrow>
              rejected_solutions s0 \<subseteq> rejected_solutions s' \<and>
              set (proposed ext) \<subseteq> rejected_solutions s')"
proof -
  have post: "day_post cf s0 tr0 (present_day_plan solve cf s0 tr0)"
    by (rule present_day_plan_post)
  have cuts: "\<forall>p \<in> set (solves ext). day_problem cf s0 p \<Longrightarrow>
      (\<forall>p \<in> set (solves ext). avoid ` rejected_solutions s0 \<subseteq> constraints p) \<and>
      (\<forall>p \<in> set (solves ext). avoid ` rejected_solutions s \<subseteq> constraints p)" for ext
    using day_problem_cuts[OF _ assms] day_problem_cuts[OF _ subset_refl] by blast
  show ?thesis
  proof (cases "present_day_plan solve cf s0 tr0")
    case (Returned w)
    obtain f tr' where w: "w = (f, tr')" by (cases w)
    show ?thesis
    proof (cases f)
      case (Reviewing s')
      from post obtain ext sol where e: "frame s0 s'"
        "tr' = tr0 @ ext @ [AskConfirm (current_day s') sol]" "proposed ext = []"
        "\<forall>p \<in> set (solves ext). day_problem cf s0 p"
        "ids sol \<notin> rejected_solutions s0" "ids sol \<in> rejected_solutions s'"
        unfolding Returned w Reviewing by (simp only: day_post.simps; blast)
      let ?ext = "ext @ [AskConfirm (current_day s') sol]"
      have "later_effects s0 ?ext"
        using e(3,5) cuts[OF e(4)] by (simp add: later_effects_def)
      moreover have "\<forall>p \<in> set (solves ?ext). avoid ` rejected_solutions s \<subseteq> constraints p"
        using cuts[OF e(4)] by simp
      moreover have "rejected_solutions s0 \<subseteq> rejected_solutions s'"
        using e(1) by (simp add: frame_def)
      moreover have "set (proposed ?ext) \<subseteq> rejected_solutions s'"
        using e(3,6) by simp
      ultimately show ?thesis
        unfolding Returned w Reviewing using e(2) by (intro exI[of _ ?ext]) simp
    next
      case Cleared
      from post obtain ext d where e:
        "tr' = tr0 @ ext @
          [MsgFinalPlan (weekly_plan s0 @ map failed_day [current_day s0..<Suc d])
             (sum_list (map day_total_cost
                (weekly_plan s0 @ map failed_day [current_day s0..<Suc d])))]"
        "current_day s0 \<le> d" "proposed ext = []"
        "\<forall>p \<in> set (solves ext). day_problem cf s0 p"
        unfolding Returned w Cleared by (simp only: day_post.simps; blast)
      let ?ext = "ext @
          [MsgFinalPlan (weekly_plan s0 @ map failed_day [current_day s0..<Suc d])
             (sum_list (map day_total_cost
                (weekly_plan s0 @ map failed_day [current_day s0..<Suc d])))]"
      have "later_effects s0 ?ext"
        using e(3) cuts[OF e(4)] by (simp add: later_effects_def)
      moreover have "\<forall>p \<in> set (solves ?ext). avoid ` rejected_solutions s \<subseteq> constraints p"
        using cuts[OF e(4)] by simp
      ultimately show ?thesis
        unfolding Returned w Cleared using e(1) by (intro exI[of _ ?ext]) simp
    qed
  next
    case (Raised err w)
    obtain f tr' where w: "w = (f, tr')" by (cases w)
    show ?thesis
    proof (cases f)
      case (Reviewing s')
      from post obtain ext where e: "frame s0 s'" "tr' = tr0 @ ext" "proposed ext = []"
        "\<forall>p \<in> set (solves ext). day_problem cf s0 p"
        unfolding Raised w Reviewing by (simp only: day_post.simps; blast)
      have "later_effects s0 ext"
        using e(3) cuts[OF e(4)] by (simp add: later_effects_def)
      moreover have "\<forall>p \<in> set (solves ext). avoid ` rejected_solutions s \<subseteq> constraints p"
        using cuts[OF e(4)] by simp
      moreover have "rejected_solutions s0 \<subseteq> rejected_solutions s'"
        using e(1) by (simp add: frame_def)
      ultimately show ?thesis
        unfolding Raised w Reviewing using e(2,3) by (intro exI[of _ ext]) simp
    next
      case Cleared
      then show ?thesis using post unfolding Raised w by simp
    qed
  qed
qed

lemma later_effects_message:
  assumes "later_effects s0 ext" and "rejected_solutions s \<subseteq> rejected_solutions s0"
    and "proposed [m] = []" and "solves [m] = []"
  shows "later_effects s (m # ext)"
proof -
  have pe: "proposed (m # ext) = proposed ext"
    using proposed_simps(2)[of "[m]" ext] assms(3) by simp
  have se: "solves (m # ext) = solves ext"
    using solves_append[of "[m]" ext] assms(4) by simp
  note f = later_effectsD[OF assms(1)]
  show ?thesis
  proof (rule later_effectsI)
    show "distinct (proposed (m # ext))" unfolding pe by (rule f(1))
    show "set (proposed (m # ext)) \<inter> rejected_solutions s = {}"
      unfolding pe using f(2) assms(2) by blast
    show "\<forall>p \<in> set (solves (m # ext)). avoid ` rejected_solutions s \<subseteq> constraints p"
      unfolding se by (rule cuts_mono[OF f(3) assms(2)])
  qed
qed

lemma next_day_later:
  assumes "rejected_solutions s \<subseteq> rejected_solutions s0"
  shows "\<exists>ext. snd (state_of (next_day solve cf s0 tr0)) = tr0 @ ext \<and>
           later_effects s ext \<and>
           (\<forall>s'. fst (state_of (next_day solve cf s0 tr0)) = Reviewing s' \<longrightarrow>
              rejected_solutions s0 \<subseteq> rejected_solutions s' \<and>
              set (proposed ext) \<subseteq> rejected_solutions s')"
proof (cases "current_day s0 < 7")
  case True
  let ?s = "s0\<lparr>current_day := current_day s0 + 1\<rparr>"
  have nd: "next_day solve cf s0 tr0 = present_day_plan solve cf ?s tr0"
    using True by (simp add: next_day_def)
  have sub: "rejected_solutions s \<subseteq> rejected_solutions ?s" using assms by simp
  from present_day_plan_later[OF sub, of solve cf tr0] obtain ext where e:
    "snd (state_of (present_day_plan solve cf ?s tr0)) = tr0 @ ext"
    "later_effects ?s ext"
    "\<forall>p \<in> set (solves ext). avoid ` rejected_solutions s \<subseteq> constraints p"
    "\<forall>s'. fst (state_of (present_day_plan solve cf ?s tr0)) = Reviewing s' \<longrightarrow>
        rejected_solutions ?s \<subseteq> rejected_solutions s' \<and>
        set (proposed ext) \<subseteq> rejected_solutions s'"
    by blast
  note f = later_effectsD[OF e(2)]
  have le: "later_effects s ext"
  proof (rule later_effectsI)
    show "distinct (proposed ext)" by (rule f(1))
    show "set (proposed ext) \<inter> rejected_solutions s = {}" using f(2) sub by blast
    show "\<forall>p \<in> set (solves ext). avoid ` rejected_solutions s \<subseteq> constraints p"
      by (rule e(3))
  qed
  have r: "\<forall>s'. fst (state_of (present_day_plan solve cf ?s tr0)) = Reviewing s' \<longrightarrow>
      rejected_solutions s0 \<subseteq> rejected_solutions s' \<and>
      set (proposed ext) \<subseteq> rejected_solutions s'"
    using e(4) by simp
  show ?thesis unfolding nd by (intro exI[of _ ext] conjI) (rule e(1) le r)+
next
  case False
  have "next_day solve cf s0 tr0 =
      Returned (Cleared,
        tr0 @ [MsgFinalPlan (weekly_plan s0) (sum_list (map day_total_cost (weekly_plan s0)))])"
    using False by (simp add: next_day_def show_final_plan_def)
  then show ?thesis
    by (intro exI[of _ "[MsgFinalPlan (weekly_plan s0)
          (sum_list (map day_total_cost (weekly_plan s0)))]"])
       (simp add: later_effects_def)
qed

lemma process_day_review_later:
  "\<exists>ext. snd (state_of (process_day_review solve cf r s tr)) = tr @ ext \<and>
     later_effects s ext \<and>
     (\<forall>s'. fst (state_of (process_day_review solve cf r s tr)) = Reviewing s' \<longrightarrow>
        rejected_solutions s \<subseteq> rejected_solutions s' \<and>
        set (proposed ext) \<subseteq> rejected_solutions s')"
proof (cases "current_solution s")
  case None
  then have "process_day_review solve cf r s tr = Raised TypeError (Reviewing s, tr)"
    by (simp add: process_day_review_def)
  then show ?thesis by (intro exI[of _ "[]"]) simp
next
  case (Some cur)
  show ?thesis
  proof (cases r)
    case Accept
    let ?s = "s\<lparr>weekly_plan := weekly_plan s @
                 [\<lparr>day = current_day s, diet = Some (products cur),
                   day_total_cost = total_cost cur\<rparr>]\<rparr>"
    have pr: "process_day_review solve cf r s tr = next_day solve cf ?s tr"
      using Some Accept by (simp add: process_day_review_def)
    have "rejected_solutions s \<subseteq> rejected_solutions ?s" by simp
    from next_day_later[OF this, of solve cf tr] show ?thesis
      unfolding pr by simp
  next
    case Reject
    let ?n = "(case day_attempts s (current_day s) of None \<Rightarrow> 0 | Some k \<Rightarrow> k) + 1"
    let ?s1 = "s\<lparr>rejected_solutions := insert (ids cur) (rejected_solutions s),
                  day_attempts := (day_attempts s)(current_day s \<mapsto> ?n)\<rparr>"
    have sub: "rejected_solutions s \<subseteq> rejected_solutions ?s1" by auto
    show ?thesis
    proof (cases "?n < 5")
      case True
      have pr: "process_day_review solve cf r s tr =
                  present_day_plan solve cf ?s1 (tr @ [MsgRetry])"
        using Some Reject True by (simp add: process_day_review_def Let_def)
      from present_day_plan_later[OF sub, of solve cf "tr @ [MsgRetry]"] obtain ext where e:
        "snd (state_of (present_day_plan solve cf ?s1 (tr @ [MsgRetry]))) =
           (tr @ [MsgRetry]) @ ext"
        "later_effects ?s1 ext"
        "\<forall>s'. fst (state_of (present_day_plan solve cf ?s1 (tr @ [MsgRetry]))) = Reviewing s' \<longrightarrow>
            rejected_solutions ?s1 \<subseteq> rejected_solutions s' \<and>
            set (proposed ext) \<subseteq> rejected_solutions s'"
        by blast
      have le: "later_effects s (MsgRetry # ext)"
        by (rule later_effects_message[OF e(2) sub]) simp_all
      have pe: "proposed (MsgRetry # ext) = proposed ext"
        using proposed_simps(2)[of "[MsgRetry]" ext] by simp
      have t: "snd (state_of (present_day_plan solve cf ?s1 (tr @ [MsgRetry]))) =
                 tr @ MsgRetry # ext"
        using e(1) by simp
      have r: "\<forall>s'. fst (state_of (present_day_plan solve cf ?s1 (tr @ [MsgRetry]))) =
                 Reviewing s' \<longrightarrow>
               rejected_solutions s \<subseteq> rejected_solutions s' \<and>
               set (proposed (MsgRetry # ext)) \<subseteq> rejected_solutions s'"
      proof (intro allI impI)
        fix s'
        assume "fst (state_of (present_day_plan solve cf ?s1 (tr @ [MsgRetry]))) = Reviewing s'"
        then have "rejected_solutions ?s1 \<subseteq> rejected_solutions s'"
          "set (proposed ext) \<subseteq> rejected_solutions s'"
          using e(3) by blast+
        then show "rejected_solutions s \<subseteq> rejected_solutions s' \<and>
               set (proposed (MsgRetry # ext)) \<subseteq> rejected_solutions s'"
          unfolding pe using sub by blast
      qed
      show ?thesis unfolding pr by (intro exI[of _ "MsgRetry # ext"] conjI) (rule t le r)+
    next
      case False
      let ?s2 = "?s1\<lparr>weekly_plan := weekly_plan s @ [failed_day (current_day s)]\<rparr>"
      let ?m = "MsgBudgetExhausted (current_day s)"
      have pr: "process_day_review solve cf r s tr = next_day solve cf ?s2 (tr @ [?m])"
        using Some Reject False by (simp add: process_day_review_def Let_def)
      have sub2: "rejected_solutions ?s1 \<subseteq> rejected_solutions ?s2" by simp
      from next_day_later[OF sub2, of solve cf "tr @ [?m]"] obtain ext where e:
        "snd (state_of (next_day solve cf ?s2 (tr @ [?m]))) = (tr @ [?m]) @ ext"
        "later_effects ?s1 ext"
        "\<forall>s'. fst (state_of (next_day solve cf ?s2 (tr @ [?m]))) = Reviewing s' \<longrightarrow>
            rejected_solutions ?s2 \<subseteq> rejected_solutions s' \<and>
            set (proposed ext) \<subseteq> rejected_solutions s'"
        by blast
      have le: "later_effects s (?m # ext)"
        by (rule later_effects_message[OF e(2) sub]) simp_all
      have pe: "proposed (?m # ext) = proposed ext"
        using proposed_simps(2)[of "[?m]" ext] by simp
      have t: "snd (state_of (next_day solve cf ?s2 (tr @ [?m]))) = tr @ ?m # ext"
        using e(1) by simp
      have r: "\<forall>s'. fst (state_of (next_day solve cf ?s2 (tr @ [?m]))) = Reviewing s' \<longrightarrow>
               rejected_solutions s \<subseteq> rejected_solutions s' \<and>
               set (proposed (?m # ext)) \<subseteq> rejected_solutions s'"
      proof (intro allI impI)
        fix s'
        assume "fst (state_of (next_day solve cf ?s2 (tr @ [?m]))) = Reviewing s'"
        then have "rejected_solutions ?s2 \<subseteq> rejected_solutions s'"
          "set (proposed ext) \<subseteq> rejected_solutions s'"
          using e(3) by blast+
        then show "rejected_solutions s \<subseteq> rejected_solutions s' \<and>
               set (proposed (?m # ext)) \<subseteq> rejected_solutions s'"
          unfolding pe using sub sub2 by blast
      qed
      show ?thesis unfolding pr by (intro exI[of _ "?m # ext"] conjI) (rule t le r)+
    qed
  qed
qed

lemma later_effects_append:
  assumes "later_effects s ext1" and "later_effects s1 ext2"
    and "rejected_solutions s \<subseteq> rejected_solutions s1"
    and "set (proposed ext1) \<subseteq> rejected_solutions s1"
  shows "later_effects s (ext1 @ ext2)"
proof (rule later_effectsI)
  note f = later_effectsD[OF assms(1)]
  note g = later_effectsD[OF assms(2)]
  have "set (proposed ext1) \<inter> set (proposed ext2) = {}"
    using g(2) assms(4) by blast
  then show "distinct (proposed (ext1 @ ext2))"
    using f(1) g(1) by simp
  show "set (proposed (ext1 @ ext2)) \<inter> rejected_solutions s = {}"
    using f(2) g(2) assms(3) by (simp add: Int_Un_distrib2) blast
  have "\<forall>p \<in> set (solves ext2). avoid ` rejected_solutions s \<subseteq> constraints p"
    by (rule cuts_mono[OF g(3) assms(3)])
  then show "\<forall>p \<in> set (solves (ext1 @ ext2)).
               avoid ` rejected_solutions s \<subseteq> constraints p"
    using f(3) by (simp add: ball_Un)
qed

lemma run_later:
  "\<exists>ext. snd (state_of (run solve cf rs (Returned (Reviewing s, tr)))) = tr @ ext \<and>
     later_effects s ext \<and>
     (\<forall>s'. fst (state_of (run solve cf rs (Returned (Reviewing s, tr)))) = Reviewing s' \<longrightarrow>
        rejected_solutions s \<subseteq> rejected_solutions s' \<and>
        set (proposed ext) \<subseteq> rejected_solutions s')"
proof (induction rs arbitrary: s tr)
  case Nil
  show ?case by (intro exI[of _ "[]"]) simp
next
  case (Cons r rs)
  let ?out = "process_day_review solve cf r s tr"
  have rn: "run solve cf (r # rs) (Returned (Reviewing s, tr)) = run solve cf rs ?out"
    by simp
  from process_day_review_later[of solve cf r s tr] obtain ext1 where e1:
    "snd (state_of ?out) = tr @ ext1" "later_effects s ext1"
    "\<forall>s'. fst (state_of ?out) = Reviewing s' \<longrightarrow>
        rejected_solutions s \<subseteq> rejected_solutions s' \<and>
        set (proposed ext1) \<subseteq> rejected_solutions s'"
    by blast
  show ?case
  proof (cases ?out)
    case (Raised err w)
    then have "run solve cf rs ?out = ?out" by simp
    then show ?thesis unfolding rn using e1 by (intro exI[of _ ext1]) simp
  next
    case (Returned w)
    obtain f tr1 where w: "w = (f, tr1)" by (cases w)
    show ?thesis
    proof (cases f)
      case Cleared
      then have "run solve cf rs ?out = ?out" using Returned w by simp
      then show ?thesis unfolding rn using e1 by (intro exI[of _ ext1]) simp
    next
      case (Reviewing s1)
      have out: "?out = Returned (Reviewing s1, tr1)" using Returned w Reviewing by simp
      have tr1: "tr1 = tr @ ext1" using e1(1) out by simp
      have s1: "rejected_solutions s \<subseteq> rejected_solutions s1"
        "set (proposed ext1) \<subseteq> rejected_solutions s1"
        using e1(3) out by simp_all
      from Cons.IH[of s1 tr1] obtain ext2 where e2:
        "snd (state_of (run solve cf rs (Returned (Reviewing s1, tr1)))) = tr1 @ ext2"
        "later_effects s1 ext2"
        "\<forall>s'. fst (state_of (run solve cf rs (Returned (Reviewing s1, tr1)))) = Reviewing s' \<longrightarrow>
            rejected_solutions s1 \<subseteq> rejected_solutions s' \<and>
            set (proposed ext2) \<subseteq> rejected_solutions s'"
        by blast
      have le: "later_effects s (ext1 @ ext2)"
        by (rule later_effects_append[OF e1(2) e2(2) s1])
      have t: "snd (state_of (run solve cf rs (Returned (Reviewing s1, tr1)))) =
                 tr @ ext1 @ ext2"
        using e2(1) tr1 by simp
      have r: "\<forall>s'. fst (state_of (run solve cf rs (Returned (Reviewing s1, tr1)))) =
                 Reviewing s' \<longrightarrow>
               rejected_solutions s \<subseteq> rejected_solutions s' \<and>
               set (proposed (ext1 @ ext2)) \<subseteq> rejected_solutions s'"
      proof (intro allI impI)
        fix s'
        assume "fst (state_of (run solve cf rs (Returned (Reviewing s1, tr1)))) = Reviewing s'"
        then have "rejected_solutions s1 \<subseteq> rejected_solutions s'"
          "set (proposed ext2) \<subseteq> rejected_solutions s'"
          using e2(3) by blast+
        then show "rejected_solutions s \<subseteq> rejected_solutions s' \<and>
               set (proposed (ext1 @ ext2)) \<subseteq> rejected_solutions s'"
          using s1 by simp blast
      qed
      show ?thesis unfolding rn out by (intro exI[of _ "ext1 @ ext2"] conjI) (rule t le r)+
    qed
  qed
qed

lemma week_proposals_distinct:
  "distinct (proposed (snd (state_of
     (run solve cf rs (generate_weekly_plan solve cf df excl tgt [])))))"
proof -
  obtain w where w: "run solve cf rs (generate_weekly_plan solve cf df excl tgt []) = Returned w"
    "week_inv cf df excl tgt w"
    using week_run by blast
  obtain f tr where ftr: "w = (f, tr)" by (cases w)
  have "distinct (proposed tr)"
    using w(2) unfolding ftr by (cases f) (simp_all add: search_ready_def)
  then show ?thesis using w(1) ftr by simp
qed

section \<open>The claims\<close>

text \<open>
  Claim C4. In any state of the loop that still has budget (fewer than five solutions,
  fewer than fifty attempts), a solve whose status is not \<open>Optimal\<close> ends the call at
  once: the loop returns the state it had, with the result list (empty or not), the ledger
  and the attempt counter untouched, and with that one solver call as the last effect.
\<close>

theorem non_optimal_status_stops_search:
  assumes "length (solutions st) < max_solutions" and "attempts st < attempt_limit"
    and "\<not> unknown_index df (rejected st)"
    and "fst (solve (trace st) (formulate df tgt (rejected st) dy)) \<noteq> Optimal"
  shows "search_loop solve df tgt dy st =
           Returned (st\<lparr>trace := trace st @ [SolverCall (formulate df tgt (rejected st) dy)]\<rparr>)"
  using assms by (subst search_loop.simps) (simp add: attempt_def Let_def)

lemma partial_search_status:
  "fst (exhaustive_solver (trace partial_search)
          (formulate scenario_catalog scenario_targets (rejected partial_search) (Some 1)))
   = Infeasible"
  by code_simp

theorem non_optimal_status_stops_search_witness:
  "search_loop exhaustive_solver scenario_catalog scenario_targets (Some 1) partial_search =
     Returned (partial_search\<lparr>trace := trace partial_search @
        [SolverCall (formulate scenario_catalog scenario_targets (rejected partial_search) (Some 1))]\<rparr>)"
proof (rule non_optimal_status_stops_search)
  show "length (solutions partial_search) < max_solutions"
    by (simp add: partial_search_def max_solutions_def)
  show "attempts partial_search < attempt_limit"
    by (simp add: partial_search_def attempt_limit_def)
  show "\<not> unknown_index scenario_catalog (rejected partial_search)"
    by (simp add: partial_search_def unknown_index_def scenario_catalog_def)
  show "fst (exhaustive_solver (trace partial_search)
          (formulate scenario_catalog scenario_targets (rejected partial_search) (Some 1)))
        \<noteq> Optimal"
    unfolding partial_search_status by simp
qed

text \<open>
  Claim C3, as amended. The cut for a ledgered tuple \<open>S\<close> reads amounts, not membership
  only: a read-back quantity list satisfies it exactly when the portions it gives to the
  members of \<open>S\<close> total at most \<open>|S| - 1\<close>. Hence every list whose selected rows include
  all of \<open>S\<close> violates it, whatever the amounts, so the same support with other quantities
  is forbidden too; and a list that leaves some member of \<open>S\<close> out satisfies it unless the
  portions of the other members make up for the missing one, which a list with at most one
  portion of each row never does.
\<close>

theorem no_good_cut_counts_portions:
  "(lp_satisfies (of_quantities qs) (avoid S) \<longleftrightarrow>
      sum_list (map (\<lambda>i. if i < length qs then qs ! i else 0) S) \<le> int (length S) - 1) \<and>
   (set S \<subseteq> set (selected_ids qs) \<longrightarrow> \<not> lp_satisfies (of_quantities qs) (avoid S)) \<and>
   ((\<forall>i < length qs. qs ! i \<le> 1) \<and> \<not> set S \<subseteq> set (selected_ids qs) \<longrightarrow>
      lp_satisfies (of_quantities qs) (avoid S))"
proof (intro conjI impI)
  have "lp_satisfies (of_quantities qs) (avoid S) \<longleftrightarrow>
          sum_list (map (of_quantities qs) S) \<le> of_nat (length S) - 1"
    using lp_value_avoid[of "of_quantities qs" S] by (simp add: lp_satisfies_def avoid_def)
  also have "\<dots> \<longleftrightarrow> (of_int (sum_list (map (\<lambda>i. if i < length qs then qs ! i else 0) S)) :: rat)
                      \<le> of_int (int (length S) - 1)"
    by (simp add: sum_list_of_quantities)
  also have "\<dots> \<longleftrightarrow> sum_list (map (\<lambda>i. if i < length qs then qs ! i else 0) S) \<le> int (length S) - 1"
    by (rule of_int_le_iff)
  finally show "lp_satisfies (of_quantities qs) (avoid S) \<longleftrightarrow>
      sum_list (map (\<lambda>i. if i < length qs then qs ! i else 0) S) \<le> int (length S) - 1" .
next
  assume sub: "set S \<subseteq> set (selected_ids qs)"
  have "\<forall>i \<in> set S. 1 \<le> of_quantities qs i"
  proof
    fix i assume "i \<in> set S"
    then have "i < length qs" "0 < qs ! i" using sub selected_ids_iff[of i qs] by auto
    then have "1 \<le> qs ! i" by simp
    then have "(1::rat) \<le> of_int (qs ! i)" by (metis of_int_1 of_int_le_iff)
    then show "1 \<le> of_quantities qs i" using \<open>i < length qs\<close> by (simp add: of_quantities_def)
  qed
  then have "of_nat (length S) \<le> sum_list (map (of_quantities qs) S)"
    by (rule sum_list_at_least)
  then show "\<not> lp_satisfies (of_quantities qs) (avoid S)"
    using lp_value_avoid[of "of_quantities qs" S] by (simp add: lp_satisfies_def avoid_def)
next
  assume a: "(\<forall>i < length qs. qs ! i \<le> 1) \<and> \<not> set S \<subseteq> set (selected_ids qs)"
  then obtain j where j: "j \<in> set S" "j \<notin> set (selected_ids qs)" by auto
  have le1: "\<forall>i \<in> set S. of_quantities qs i \<le> 1"
  proof
    fix i assume "i \<in> set S"
    show "of_quantities qs i \<le> 1"
    proof (cases "i < length qs")
      case True
      then have "qs ! i \<le> 1" using a by simp
      then have "(of_int (qs ! i) :: rat) \<le> 1" by (metis of_int_1 of_int_le_iff)
      then show ?thesis using True by (simp add: of_quantities_def)
    next
      case False
      then show ?thesis by (simp add: of_quantities_def)
    qed
  qed
  have "of_quantities qs j \<le> 0"
  proof (cases "j < length qs")
    case True
    then have "qs ! j \<le> 0" using j(2) selected_ids_iff[of j qs] by auto
    then have "(of_int (qs ! j) :: rat) \<le> 0" by simp
    then show ?thesis using True by (simp add: of_quantities_def)
  next
    case False
    then show ?thesis by (simp add: of_quantities_def)
  qed
  then have "sum_list (map (of_quantities qs) S) \<le> of_nat (length S) - 1"
    using sum_list_one_missing[OF le1 j(1)] by simp
  then show "lp_satisfies (of_quantities qs) (avoid S)"
    using lp_value_avoid[of "of_quantities qs" S] by (simp add: lp_satisfies_def avoid_def)
qed

theorem no_good_cut_counts_portions_witness:
  "set (selected_ids [2, 0, 0]) \<subset> set [0, 1, 2] \<and>
   lp_satisfies (of_quantities [2, 0, 0]) (avoid [0, 1, 2]) \<and>
   lp_satisfies (of_quantities [1, 0, 3]) (avoid [0, 1]) \<and>
   set (selected_ids [3, 0]) \<subset> set [0, 1] \<and>
   \<not> lp_satisfies (of_quantities [3, 0]) (avoid [0, 1]) \<and>
   set [0, 1] \<subseteq> set (selected_ids [2, 1]) \<and>
   \<not> lp_satisfies (of_quantities [2, 1]) (avoid [0, 1]) \<and>
   \<not> set [0, 1] \<subseteq> set (selected_ids [1, 0]) \<and>
   lp_satisfies (of_quantities [1, 0]) (avoid [0, 1])"
proof -
  have s1: "set (selected_ids [2, 0, 0]) \<subset> set [0, 1, 2]" by code_simp
  have s2: "set (selected_ids [3, 0]) \<subset> set [0, 1]" by code_simp
  have a: "set [0, 1] \<subseteq> set (selected_ids [2, 1])" by code_simp
  have b: "\<forall>i < length [1, 0 :: int]. [1, 0 :: int] ! i \<le> 1"
    by (simp add: less_Suc_eq)
  have c: "\<not> set [0, 1] \<subseteq> set (selected_ids [1, 0])" by code_simp
  from no_good_cut_counts_portions[of "[2, 0, 0]" "[0, 1, 2]"]
  have p1: "lp_satisfies (of_quantities [2, 0, 0]) (avoid [0, 1, 2])" by simp
  from no_good_cut_counts_portions[of "[1, 0, 3]" "[0, 1]"]
  have p2: "lp_satisfies (of_quantities [1, 0, 3]) (avoid [0, 1])" by simp
  from no_good_cut_counts_portions[of "[3, 0]" "[0, 1]"]
  have p3: "\<not> lp_satisfies (of_quantities [3, 0]) (avoid [0, 1])" by simp
  from no_good_cut_counts_portions[of "[2, 1]" "[0, 1]"] a
  have d: "\<not> lp_satisfies (of_quantities [2, 1]) (avoid [0, 1])" by blast
  from no_good_cut_counts_portions[of "[1, 0]" "[0, 1]"] b c
  have e: "lp_satisfies (of_quantities [1, 0]) (avoid [0, 1])" by blast
  show ?thesis using s1 s2 a c p1 p2 p3 d e by blast
qed

text \<open>
  Claim C3 as stated fails: three portions of row 0 alone select a strict subset of
  \<open>{0, 1}\<close> and violate the cut for \<open>(0, 1)\<close>; so do two portions of row 0 with one
  of row 1, the support \<open>(0, 1)\<close> with quantities other than one of each.
\<close>

theorem no_good_cut_membership_only_counterexample:
  "set (selected_ids [3, 0]) \<subset> set [0, 1] \<and>
   \<not> lp_satisfies (of_quantities [3, 0]) (avoid [0, 1]) \<and>
   selected_ids [2, 1] = [0, 1] \<and>
   selected_ids [1, 1] = [0, 1] \<and>
   [2, 1] \<noteq> [1, 1 :: int] \<and>
   \<not> lp_satisfies (of_quantities [2, 1]) (avoid [0, 1])"
  by code_simp

text \<open>
  Claim C7. The loop is a total function: its recursion is justified by the distance of
  the attempt counter from the limit. A pass either continues with the counter raised by
  one, or leaves the loop (non-optimal status, or \<open>KeyError\<close>); a pass that adds a
  solution makes the ledger, and with it the set of no-good cuts, strictly larger. The
  loop makes at most 50 passes, and a call returns at most 5 solutions after at most 50
  solver calls; when it returns, it has 5 solutions, or 50 attempts, or its last solve was
  not optimal.
\<close>

theorem search_stops_within_attempt_limit:
  "((\<exists>st'. attempt solve df tgt dy st = Continue st' \<and> attempts st' = attempts st + 1 \<and>
           (solutions st' \<noteq> solutions st \<longrightarrow>
              rejected st \<subset> rejected st' \<and> avoid ` rejected st \<subset> avoid ` rejected st')) \<or>
    (\<exists>st'. attempt solve df tgt dy st = Break st') \<or>
    (\<exists>e st'. attempt solve df tgt dy st = Raise e st')) \<and>
   loop_passes solve df tgt dy st \<le> 50 - attempts st \<and>
   (\<exists>st'. (find_all_solutions solve cf df tgt excl L dy tr = Returned st' \<or>
           (\<exists>e. find_all_solutions solve cf df tgt excl L dy tr = Raised e st')) \<and>
          length (solutions st') \<le> 5 \<and> attempts st' \<le> 50 \<and>
          length (solves (trace st')) \<le> length (solves tr) + 50) \<and>
   exit_reason solve (find_all_solutions solve cf df tgt excl L dy tr)"
proof (intro conjI)
  show "(\<exists>st'. attempt solve df tgt dy st = Continue st' \<and> attempts st' = attempts st + 1 \<and>
           (solutions st' \<noteq> solutions st \<longrightarrow>
              rejected st \<subset> rejected st' \<and> avoid ` rejected st \<subset> avoid ` rejected st')) \<or>
    (\<exists>st'. attempt solve df tgt dy st = Break st') \<or>
    (\<exists>e st'. attempt solve df tgt dy st = Raise e st')"
    by (rule attempt_pass)
  show "loop_passes solve df tgt dy st \<le> 50 - attempts st"
    using loop_passes_bound[of solve df tgt dy st] by (simp add: attempt_limit_def)
  let ?out = "find_all_solutions solve cf df tgt excl L dy tr"
  have led: "ledger_inv (exclude_products cf excl df) L (state_of ?out)"
    by (rule find_all_solutions_ledger)
  obtain ps where ps:
    "trace (state_of ?out) =
       tr @ (if excl \<noteq> [] then [LogExcluded (length df - length (exclude_products cf excl df))]
             else []) @ map SolverCall ps"
    "length ps \<le> attempt_limit"
    by (rule find_all_solutions_trace[of solve cf df tgt excl L dy tr])
  have "length (solves (trace (state_of ?out))) \<le> length (solves tr) + 50"
    using ps by (simp add: attempt_limit_def)
  moreover have "length (solutions (state_of ?out)) \<le> 5 \<and> attempts (state_of ?out) \<le> 50"
    using led by (simp add: ledger_inv_def max_solutions_def attempt_limit_def)
  moreover have "?out = Returned (state_of ?out) \<or> (\<exists>e. ?out = Raised e (state_of ?out))"
    by (cases ?out) simp_all
  ultimately show "\<exists>st'. (?out = Returned st' \<or> (\<exists>e. ?out = Raised e st')) \<and>
          length (solutions st') \<le> 5 \<and> attempts st' \<le> 50 \<and>
          length (solves (trace st')) \<le> length (solves tr) + 50"
    by blast
  show "exit_reason solve ?out" by (rule find_all_solutions_exit)
qed

lemma scenario_first_pass:
  "(case attempt exhaustive_solver scenario_catalog scenario_targets (Some 1) (initial_search {} []) of
      Continue s \<Rightarrow> map ids (solutions s) = [[0, 1]]
    | Break s \<Rightarrow> False
    | Raise e s \<Rightarrow> False)"
  by code_simp

theorem search_stops_within_attempt_limit_witness:
  "solutions (ctl_state (attempt exhaustive_solver scenario_catalog scenario_targets (Some 1)
      (initial_search {} []))) \<noteq> solutions (initial_search {} []) \<and>
   rejected (initial_search {} []) \<subset>
     rejected (ctl_state (attempt exhaustive_solver scenario_catalog scenario_targets (Some 1)
       (initial_search {} []))) \<and>
   loop_passes exhaustive_solver scenario_catalog scenario_targets (Some 1) (initial_search {} [])
     \<le> 50 \<and>
   exit_reason exhaustive_solver
     (find_all_solutions exhaustive_solver id scenario_catalog scenario_targets [] {} (Some 1) [])"
proof -
  let ?st = "initial_search {} []"
  let ?a = "attempt exhaustive_solver scenario_catalog scenario_targets (Some 1) ?st"
  obtain s where s: "?a = Continue s" "map ids (solutions s) = [[0, 1]]"
    using scenario_first_pass by (cases ?a) simp_all
  have new: "solutions s \<noteq> solutions ?st" using s(2) by (auto simp: initial_search_def)
  note inst = search_stops_within_attempt_limit[of exhaustive_solver scenario_catalog
      scenario_targets "Some 1" ?st id "[]" "{}" "[]"]
  from inst s(1) new have "rejected ?st \<subset> rejected s" by auto
  moreover from inst have "loop_passes exhaustive_solver scenario_catalog scenario_targets (Some 1) ?st \<le> 50"
    by (simp add: initial_search_def)
  moreover from inst have "exit_reason exhaustive_solver
     (find_all_solutions exhaustive_solver id scenario_catalog scenario_targets [] {} (Some 1) [])"
    by blast
  ultimately show ?thesis using s(1) new by simp
qed

text \<open>
  Claim C10. Two calls that leave \<open>rejected_solutions\<close> out work on the same default
  set, whatever their other arguments: every tuple of a solution collected by the first
  call is in the default set when the second call starts, has its cut in every problem
  the second call gives to the solver, and is the tuple of no solution the second call
  collects.
\<close>

theorem default_ledger_outlives_the_call:
  assumes "call_find_all_solutions solve1 cf1 df1 tgt1 excl1 None dy1 defaults tr1 = (out1, defaults1)"
    and "call_find_all_solutions solve2 cf2 df2 tgt2 excl2 None dy2 defaults1 tr2 = (out2, defaults2)"
    and "s1 \<in> set (solutions (state_of out1))"
  shows "ids s1 \<in> default_rejected_solutions defaults1 \<and>
         (\<forall>s2 \<in> set (solutions (state_of out2)). ids s2 \<noteq> ids s1) \<and>
         (\<forall>p \<in> set (solves (drop (length tr2) (trace (state_of out2)))).
            avoid (ids s1) \<in> constraints p)"
proof -
  let ?e1 = "case excl1 of None \<Rightarrow> default_excluded_products defaults | Some e \<Rightarrow> e"
  let ?e2 = "case excl2 of None \<Rightarrow> default_excluded_products defaults1 | Some e \<Rightarrow> e"
  let ?L1 = "default_rejected_solutions defaults"
  let ?L2 = "default_rejected_solutions defaults1"
  let ?A1 = "find_all_solutions solve1 cf1 df1 tgt1 ?e1 ?L1 dy1 tr1"
  have "(?A1, defaults\<lparr>default_rejected_solutions := rejected (state_of ?A1)\<rparr>) = (out1, defaults1)"
    using assms(1) by (simp only: call_omitted)
  then have out1: "out1 = ?A1"
    and dd: "defaults1 = defaults\<lparr>default_rejected_solutions := rejected (state_of ?A1)\<rparr>"
    by blast+
  have d1: "?L2 = rejected (state_of out1)"
    unfolding dd out1 by simp
  let ?A2 = "find_all_solutions solve2 cf2 df2 tgt2 ?e2 ?L2 dy2 tr2"
  have "(?A2, defaults1\<lparr>default_rejected_solutions := rejected (state_of ?A2)\<rparr>) = (out2, defaults2)"
    using assms(2) by (simp only: call_omitted)
  then have out2: "out2 = ?A2"
    by blast
  have "ledger_inv (exclude_products cf1 ?e1 df1) ?L1 (state_of out1)"
    unfolding out1 by (rule find_all_solutions_ledger)
  then have in1: "ids s1 \<in> ?L2" using assms(3) d1 by (auto simp: ledger_inv_def)
  have "ledger_inv (exclude_products cf2 ?e2 df2) ?L2 (state_of out2)"
    unfolding out2 by (rule find_all_solutions_ledger)
  then have "\<forall>s2 \<in> set (solutions (state_of out2)). ids s2 \<notin> ?L2"
    by (auto simp: ledger_inv_def)
  then have fresh: "\<forall>s2 \<in> set (solutions (state_of out2)). ids s2 \<noteq> ids s1"
    using in1 by auto
  obtain ps where ps:
    "trace (state_of out2) =
       tr2 @ (if ?e2 \<noteq> [] then [LogExcluded (length df2 - length (exclude_products cf2 ?e2 df2))]
              else []) @ map SolverCall ps"
    "length ps \<le> attempt_limit"
    "\<forall>p \<in> set ps. \<exists>L'. ?L2 \<subseteq> L' \<and> p = formulate (exclude_products cf2 ?e2 df2) tgt2 L' dy2"
    unfolding out2 by (rule find_all_solutions_trace[of solve2 cf2 df2 tgt2 ?e2 ?L2 dy2 tr2])
  have sv: "solves (drop (length tr2) (trace (state_of out2))) = ps"
    using ps(1) by simp
  have cut: "avoid (ids s1) \<in> constraints p" if "p \<in> set ps" for p
  proof -
    from ps(3) that have "\<exists>L'. ?L2 \<subseteq> L' \<and> p = formulate (exclude_products cf2 ?e2 df2) tgt2 L' dy2"
      by (rule bspec)
    then obtain L' where sub: "?L2 \<subseteq> L'"
      and p: "p = formulate (exclude_products cf2 ?e2 df2) tgt2 L' dy2"
      by (elim exE conjE)
    have "ids s1 \<in> L'" using sub in1 by (rule subsetD)
    then have "avoid (ids s1) \<in> constraints (formulate (exclude_products cf2 ?e2 df2) tgt2 L' dy2)"
      by (rule avoid_in_constraints)
    then show ?thesis by (simp only: p)
  qed
  show ?thesis
  proof (intro conjI ballI)
    show "ids s1 \<in> ?L2" by (rule in1)
    show "ids s2 \<noteq> ids s1" if "s2 \<in> set (solutions (state_of out2))" for s2
      using fresh that by blast
    show "avoid (ids s1) \<in> constraints p"
      if "p \<in> set (solves (drop (length tr2) (trace (state_of out2))))" for p
      using cut that unfolding sv by blast
  qed
qed

lemma default_first_call:
  "map ids (solutions (state_of (fst
     (call_find_all_solutions exhaustive_solver id scenario_catalog scenario_targets None None
        (Some 1) initial_defaults [])))) = [[0, 1]]"
  by code_simp

lemma default_second_call:
  "solutions (state_of (fst
     (call_find_all_solutions exhaustive_solver id scenario_catalog scenario_targets None None
        (Some 1)
        (snd (call_find_all_solutions exhaustive_solver id scenario_catalog scenario_targets
                None None (Some 1) initial_defaults []))
        []))) = []"
  by code_simp

lemma fresh_second_call:
  "map ids (solutions (state_of (fst
     (call_find_all_solutions exhaustive_solver id scenario_catalog scenario_targets None (Some {})
        (Some 1)
        (snd (call_find_all_solutions exhaustive_solver id scenario_catalog scenario_targets
                None None (Some 1) initial_defaults []))
        [])))) = [[0, 1]]"
  by code_simp

theorem default_ledger_outlives_the_call_witness:
  "[0, 1] \<in> default_rejected_solutions
      (snd (call_find_all_solutions exhaustive_solver id scenario_catalog scenario_targets
              None None (Some 1) initial_defaults [])) \<and>
   solutions (state_of (fst
     (call_find_all_solutions exhaustive_solver id scenario_catalog scenario_targets None None
        (Some 1)
        (snd (call_find_all_solutions exhaustive_solver id scenario_catalog scenario_targets
                None None (Some 1) initial_defaults []))
        []))) = [] \<and>
   map ids (solutions (state_of (fst
     (call_find_all_solutions exhaustive_solver id scenario_catalog scenario_targets None (Some {})
        (Some 1)
        (snd (call_find_all_solutions exhaustive_solver id scenario_catalog scenario_targets
                None None (Some 1) initial_defaults []))
        [])))) = [[0, 1]]"
proof -
  let ?c1 = "call_find_all_solutions exhaustive_solver id scenario_catalog scenario_targets
               None None (Some 1) initial_defaults []"
  let ?c2 = "call_find_all_solutions exhaustive_solver id scenario_catalog scenario_targets
               None None (Some 1) (snd ?c1) []"
  have e1: "?c1 = (fst ?c1, snd ?c1)" by simp
  have e2: "?c2 = (fst ?c2, snd ?c2)" by simp
  obtain s1 where s1: "s1 \<in> set (solutions (state_of (fst ?c1)))" "ids s1 = [0, 1]"
    using default_first_call by (cases "solutions (state_of (fst ?c1))") auto
  from default_ledger_outlives_the_call[OF e1 e2 s1(1)]
  have "[0, 1] \<in> default_rejected_solutions (snd ?c1)" by (simp add: s1(2))
  then show ?thesis using default_second_call fresh_second_call by simp
qed

text \<open>
  Claim C6. When the search for a day returns an empty list, \<open>present_day_plan\<close> appends
  the failure marker (no diet, cost 0) for that day and goes on: to the next day when the
  day is before the seventh, to the final plan otherwise. It does not raise; the retry
  counters are as they were; the dialogue then waits on a later day with the failed day
  in the plan, or has ended with a final plan that holds the failed day.
\<close>

theorem empty_search_fails_the_day:
  assumes out: "find_all_solutions solve cf (products_df s) (nutrition s) (excluded_products s)
                  (rejected_solutions s) (Some (current_day s)) tr = Returned st"
    and empty: "solutions st = []"
  shows "present_day_plan solve cf s tr =
           (if current_day s < 7
            then present_day_plan solve cf
                   (s\<lparr>rejected_solutions := rejected st,
                      weekly_plan := weekly_plan s @
                        [\<lparr>day = current_day s, diet = None, day_total_cost = 0\<rparr>],
                      current_day := current_day s + 1\<rparr>)
                   (trace st @ [MsgDayFailed (current_day s)])
            else show_final_plan
                   (s\<lparr>rejected_solutions := rejected st,
                      weekly_plan := weekly_plan s @
                        [\<lparr>day = current_day s, diet = None, day_total_cost = 0\<rparr>]\<rparr>)
                   (trace st @ [MsgDayFailed (current_day s)])) \<and>
         (\<exists>w. present_day_plan solve cf s tr = Returned w) \<and>
         (\<forall>s' tr'. present_day_plan solve cf s tr = Returned (Reviewing s', tr') \<longrightarrow>
            day_attempts s' = day_attempts s \<and> current_day s < current_day s' \<and>
            \<lparr>day = current_day s, diet = None, day_total_cost = 0\<rparr> \<in> set (weekly_plan s')) \<and>
         (\<forall>tr'. present_day_plan solve cf s tr = Returned (Cleared, tr') \<longrightarrow>
            (\<exists>ext wp. tr' = tr @ ext @ [MsgFinalPlan wp (sum_list (map day_total_cost wp))] \<and>
               \<lparr>day = current_day s, diet = None, day_total_cost = 0\<rparr> \<in> set wp))"
proof -
  let ?failed = "\<lparr>day = current_day s, diet = None, day_total_cost = 0\<rparr>"
  let ?s1 = "s\<lparr>rejected_solutions := rejected st,
                weekly_plan := weekly_plan s @ [?failed],
                current_day := current_day s + 1\<rparr>"
  let ?tr1 = "trace st @ [MsgDayFailed (current_day s)]"
  have step: "present_day_plan solve cf s tr =
           (if current_day s < 7 then present_day_plan solve cf ?s1 ?tr1
            else show_final_plan
                   (s\<lparr>rejected_solutions := rejected st,
                      weekly_plan := weekly_plan s @ [?failed]\<rparr>) ?tr1)"
    by (subst present_day_plan.simps) (simp add: out empty failed_day_def)
  have "\<not> unknown_index (session_catalog cf s) (rejected_solutions s)"
    using find_all_solutions_Returned_known[OF out] by (simp add: session_catalog_def)
  from present_day_plan_no_raise[OF this, of solve tr]
  have ret: "\<exists>w. present_day_plan solve cf s tr = Returned w" by blast
  have waits: "day_attempts s' = day_attempts s \<and> current_day s < current_day s' \<and>
               ?failed \<in> set (weekly_plan s')"
    if r: "present_day_plan solve cf s tr = Returned (Reviewing s', tr')" for s' tr'
  proof -
    have lt: "current_day s < 7"
    proof (rule ccontr)
      assume "\<not> current_day s < 7"
      then show False using step r by (simp add: show_final_plan_def)
    qed
    then have "present_day_plan solve cf ?s1 ?tr1 = Returned (Reviewing s', tr')"
      using step r by simp
    then have "day_post cf ?s1 ?tr1 (Returned (Reviewing s', tr'))"
      using present_day_plan_post[of cf ?s1 ?tr1 solve] by simp
    then have "frame ?s1 s'" by simp
    then show ?thesis by (auto simp: frame_def)
  qed
  have ends: "\<exists>ext wp. tr' = tr @ ext @ [MsgFinalPlan wp (sum_list (map day_total_cost wp))] \<and>
                ?failed \<in> set wp"
    if r: "present_day_plan solve cf s tr = Returned (Cleared, tr')" for tr'
  proof -
    have "day_post cf s tr (Returned (Cleared, tr'))"
      using present_day_plan_post[of cf s tr solve] r by simp
    then obtain ext d where
      tr': "tr' = tr @ ext @
          [MsgFinalPlan (weekly_plan s @ map failed_day [current_day s..<Suc d])
             (sum_list (map day_total_cost
                (weekly_plan s @ map failed_day [current_day s..<Suc d])))]"
      and d: "current_day s \<le> d"
      by auto
    have "current_day s \<in> set [current_day s..<Suc d]" using d by auto
    then have "failed_day (current_day s) \<in> failed_day ` set [current_day s..<Suc d]"
      by (rule imageI)
    then have "failed_day (current_day s) \<in> set (map failed_day [current_day s..<Suc d])"
      by (simp only: set_map)
    then have "?failed \<in> set (weekly_plan s @ map failed_day [current_day s..<Suc d])"
      by (simp add: failed_day_def)
    then show ?thesis using tr' by blast
  qed
  show ?thesis using step ret waits ends by blast
qed

lemma unreachable_first_search:
  "solutions (state_of (find_all_solutions exhaustive_solver id scenario_catalog
     unreachable_targets [] {} (Some 1) [])) = []"
  by code_simp

theorem empty_search_fails_the_day_witness:
  "solutions (state_of (find_all_solutions exhaustive_solver id scenario_catalog
     unreachable_targets [] {} (Some 1) [])) = [] \<and>
   present_day_plan exhaustive_solver id (first_day scenario_catalog [] unreachable_targets) [] =
     present_day_plan exhaustive_solver id
       ((first_day scenario_catalog [] unreachable_targets)
          \<lparr>rejected_solutions := rejected (state_of (find_all_solutions exhaustive_solver id
               scenario_catalog unreachable_targets [] {} (Some 1) [])),
           weekly_plan := [\<lparr>day = 1, diet = None, day_total_cost = 0\<rparr>],
           current_day := 2\<rparr>)
       (trace (state_of (find_all_solutions exhaustive_solver id
               scenario_catalog unreachable_targets [] {} (Some 1) [])) @ [MsgDayFailed 1])"
proof -
  let ?s = "first_day scenario_catalog [] unreachable_targets"
  let ?out = "find_all_solutions exhaustive_solver id scenario_catalog
     unreachable_targets [] {} (Some 1) []"
  obtain st where st: "?out = Returned st"
    using find_all_solutions_returns[of id "[]" scenario_catalog "{}" exhaustive_solver
        unreachable_targets "Some 1" "[]"]
    by (auto simp: unknown_index_def)
  have out: "find_all_solutions exhaustive_solver id (products_df ?s) (nutrition ?s)
               (excluded_products ?s) (rejected_solutions ?s) (Some (current_day ?s)) [] =
             Returned st"
    using st by (simp add: first_day_def)
  have empty: "solutions st = []" using unreachable_first_search st by simp
  from empty_search_fails_the_day[OF out empty]
  have "present_day_plan exhaustive_solver id ?s [] =
          present_day_plan exhaustive_solver id
            (?s\<lparr>rejected_solutions := rejected st,
                weekly_plan := weekly_plan ?s @
                  [\<lparr>day = current_day ?s, diet = None, day_total_cost = 0\<rparr>],
                current_day := current_day ?s + 1\<rparr>)
            (trace st @ [MsgDayFailed (current_day ?s)])"
    by (simp add: first_day_def)
  then show ?thesis using unreachable_first_search st
    by (simp add: first_day_def numeral_2_eq_2)
qed

text \<open>
  Claim C8, as amended. The code's filter is the filter of the specification, but it is
  not applied once before day 1: every search call applies it itself (when the exclusion
  list is not empty), to the full catalog kept with the conversation. That catalog and
  the exclusion list never change during the week, so every problem solved, on any day and
  any retry, is formulated over the one catalog that filtering the full catalog once
  gives.
\<close>

theorem every_search_filters_the_stored_catalog:
  "exclude_products cf excl df = filtered_catalog cf excl df \<and>
   exclusions (trace (state_of (find_all_solutions solve cf df tgt excl L dy tr))) =
     exclusions tr @
     (if excl = [] then [] else [length df - length (filtered_catalog cf excl df)]) \<and>
   (\<forall>p \<in> set (solves (snd (state_of
        (run solve cf rs (generate_weekly_plan solve cf df excl tgt []))))).
      \<exists>d L'. p = formulate (filtered_catalog cf excl df) tgt L' (Some d)) \<and>
   (\<forall>s. fst (state_of (run solve cf rs (generate_weekly_plan solve cf df excl tgt []))) =
          Reviewing s \<longrightarrow>
        products_df s = df \<and> excluded_products s = excl)"
proof (intro conjI allI impI)
  show "exclude_products cf excl df = filtered_catalog cf excl df"
    by (rule exclude_products_filtered_catalog)
  show "exclusions (trace (state_of (find_all_solutions solve cf df tgt excl L dy tr))) =
     exclusions tr @
     (if excl = [] then [] else [length df - length (filtered_catalog cf excl df)])"
    using find_all_solutions_exclusions[of solve cf df tgt excl L dy tr]
    by (simp only: exclude_products_filtered_catalog)
  show "\<forall>p \<in> set (solves (snd (state_of
        (run solve cf rs (generate_weekly_plan solve cf df excl tgt []))))).
      \<exists>d L'. p = formulate (filtered_catalog cf excl df) tgt L' (Some d)"
    using week_problems[of solve cf rs df excl tgt]
    by (simp only: exclude_products_filtered_catalog)
next
  fix s
  assume "fst (state_of (run solve cf rs (generate_weekly_plan solve cf df excl tgt []))) =
            Reviewing s"
  then show "products_df s = df" "excluded_products s = excl"
    using week_stored_catalog by blast+
qed

lemma pantry_filtered: "filtered_catalog ascii_lower [[99]] pantry = scenario_catalog"
  by code_simp

lemma pantry_week_solves:
  "length (solves (snd (state_of (run exhaustive_solver ascii_lower [Accept]
     (generate_weekly_plan exhaustive_solver ascii_lower pantry [[99]] scenario_targets [])))))
   = 8"
  by code_simp

theorem every_search_filters_the_stored_catalog_witness:
  "exclude_products ascii_lower [[99]] pantry = scenario_catalog \<and>
   exclusions (trace (state_of
     (find_all_solutions exhaustive_solver ascii_lower pantry scenario_targets [[99]] {}
        (Some 1) []))) = [1] \<and>
   map variables (solves (snd (state_of (run exhaustive_solver ascii_lower [Accept]
     (generate_weekly_plan exhaustive_solver ascii_lower pantry [[99]] scenario_targets [])))))
   = replicate 8 (product_vars scenario_catalog)"
proof -
  let ?tr = "snd (state_of (run exhaustive_solver ascii_lower [Accept]
     (generate_weekly_plan exhaustive_solver ascii_lower pantry [[99]] scenario_targets [])))"
  note inst = every_search_filters_the_stored_catalog[of ascii_lower "[[99]]" pantry
      exhaustive_solver scenario_targets "{}" "Some 1" "[]" "[Accept]"]
  have a: "exclude_products ascii_lower [[99]] pantry = scenario_catalog"
    using inst pantry_filtered by simp
  have b: "exclusions (trace (state_of
     (find_all_solutions exhaustive_solver ascii_lower pantry scenario_targets [[99]] {}
        (Some 1) []))) = [1]"
    using inst pantry_filtered
    by (simp add: exclusions_def pantry_def scenario_catalog_def)
  have "\<forall>p \<in> set (solves ?tr). variables p = product_vars scenario_catalog"
  proof
    fix p assume "p \<in> set (solves ?tr)"
    then obtain d L' where "p = formulate (filtered_catalog ascii_lower [[99]] pantry)
        scenario_targets L' (Some d)"
      using inst by blast
    then show "variables p = product_vars scenario_catalog"
      by (simp add: pantry_filtered formulate_def)
  qed
  then have "map variables (solves ?tr) = replicate (length (solves ?tr)) (product_vars scenario_catalog)"
    by (simp add: map_replicate_const[symmetric] cong: map_cong)
  then have c: "map variables (solves ?tr) = replicate 8 (product_vars scenario_catalog)"
    by (simp only: pantry_week_solves)
  show ?thesis using a b c by blast
qed

text \<open>
  Claim C8 as stated fails: the filter is applied again by every search. In a week over
  the three-item catalog with \<open>c\<close> excluded, accepting the first diet makes seven
  applications, one for each day; rejecting it makes eight, two of them on day 1.
\<close>

theorem filter_applied_once_counterexample:
  "exclusions (snd (state_of (run exhaustive_solver ascii_lower [Accept]
     (generate_weekly_plan exhaustive_solver ascii_lower pantry [[99]] scenario_targets []))))
   = [1, 1, 1, 1, 1, 1, 1] \<and>
   exclusions (snd (state_of (run exhaustive_solver ascii_lower [Reject]
     (generate_weekly_plan exhaustive_solver ascii_lower pantry [[99]] scenario_targets []))))
   = [1, 1, 1, 1, 1, 1, 1, 1]"
  by code_simp

text \<open>
  Claim C2. A search call only adds to the ledger it is given, returns solutions with
  pairwise different tuples, and returns no tuple that was in the ledger when it was
  called. From any state of a conversation, whatever the user answers afterwards, the
  ledger of every later state contains the present one, every problem solved later
  carries the cut of every tuple now in the ledger, and the diets shown later have tuples
  that are not in the present ledger and differ from one another. Over a whole week no
  tuple is shown twice.
\<close>

theorem each_support_set_proposed_once:
  "L \<subseteq> rejected (state_of (find_all_solutions solve cf df tgt excl L dy tr)) \<and>
   distinct (map ids (solutions (state_of (find_all_solutions solve cf df tgt excl L dy tr)))) \<and>
   (\<forall>sol \<in> set (solutions (state_of (find_all_solutions solve cf df tgt excl L dy tr))).
      ids sol \<notin> L \<and>
      ids sol \<in> rejected (state_of (find_all_solutions solve cf df tgt excl L dy tr))) \<and>
   (\<exists>ext. snd (state_of (run solve cf rs (Returned (Reviewing s, tr')))) = tr' @ ext \<and>
      distinct (proposed ext) \<and> set (proposed ext) \<inter> rejected_solutions s = {} \<and>
      (\<forall>p \<in> set (solves ext). avoid ` rejected_solutions s \<subseteq> constraints p)) \<and>
   (\<forall>s'. fst (state_of (run solve cf rs (Returned (Reviewing s, tr')))) = Reviewing s' \<longrightarrow>
      rejected_solutions s \<subseteq> rejected_solutions s') \<and>
   distinct (proposed (snd (state_of
     (run solve cf rs (generate_weekly_plan solve cf df excl tgt [])))))"
proof -
  let ?st = "state_of (find_all_solutions solve cf df tgt excl L dy tr)"
  have inv: "ledger_inv (exclude_products cf excl df) L ?st"
    by (rule find_all_solutions_ledger)
  have a: "L \<subseteq> rejected ?st" using inv by (simp add: ledger_inv_def)
  have b: "distinct (map ids (solutions ?st))" using inv by (simp add: ledger_inv_def)
  have c: "\<forall>sol \<in> set (solutions ?st). ids sol \<notin> L \<and> ids sol \<in> rejected ?st"
    using inv unfolding ledger_inv_def by blast
  from run_later[of solve cf rs s tr'] obtain ext where e:
    "snd (state_of (run solve cf rs (Returned (Reviewing s, tr')))) = tr' @ ext"
    "later_effects s ext"
    "\<forall>s'. fst (state_of (run solve cf rs (Returned (Reviewing s, tr')))) = Reviewing s' \<longrightarrow>
        rejected_solutions s \<subseteq> rejected_solutions s' \<and>
        set (proposed ext) \<subseteq> rejected_solutions s'"
    by blast
  have d: "\<exists>ext. snd (state_of (run solve cf rs (Returned (Reviewing s, tr')))) = tr' @ ext \<and>
      distinct (proposed ext) \<and> set (proposed ext) \<inter> rejected_solutions s = {} \<and>
      (\<forall>p \<in> set (solves ext). avoid ` rejected_solutions s \<subseteq> constraints p)"
    using e(1,2) unfolding later_effects_def by blast
  have f: "\<forall>s'. fst (state_of (run solve cf rs (Returned (Reviewing s, tr')))) = Reviewing s' \<longrightarrow>
      rejected_solutions s \<subseteq> rejected_solutions s'"
    using e(3) by blast
  have g: "distinct (proposed (snd (state_of
     (run solve cf rs (generate_weekly_plan solve cf df excl tgt [])))))"
    by (rule week_proposals_distinct)
  show ?thesis using a b c d f g by blast
qed

lemma three_meals_search:
  "map ids (solutions (state_of
     (find_all_solutions exhaustive_solver id (take 3 six_meals) scenario_targets [] {[1]}
        (Some 1) []))) = [[0], [2]]"
  by code_simp

lemma first_meal_rejected_twice:
  "proposed (snd (state_of (run single_item_solver id [Reject, Reject]
     (Returned (Reviewing first_meal_shown, []))))) = [[1], [2]]"
  by code_simp

lemma six_meals_rejected_twice:
  "proposed (snd (state_of (run single_item_solver id [Reject, Reject]
     (generate_weekly_plan single_item_solver id six_meals [] scenario_targets []))))
   = [[0], [1], [2]]"
  by code_simp

theorem each_support_set_proposed_once_witness:
  "map ids (solutions (state_of
     (find_all_solutions exhaustive_solver id (take 3 six_meals) scenario_targets [] {[1]}
        (Some 1) []))) = [[0], [2]] \<and>
   [1] \<in> rejected (state_of
     (find_all_solutions exhaustive_solver id (take 3 six_meals) scenario_targets [] {[1]}
        (Some 1) [])) \<and>
   proposed (snd (state_of (run single_item_solver id [Reject, Reject]
     (Returned (Reviewing first_meal_shown, []))))) = [[1], [2]] \<and>
   [0] \<in> rejected_solutions first_meal_shown \<and>
   proposed (snd (state_of (run single_item_solver id [Reject, Reject]
     (generate_weekly_plan single_item_solver id six_meals [] scenario_targets []))))
   = [[0], [1], [2]] \<and>
   distinct (proposed (snd (state_of (run single_item_solver id [Reject, Reject]
     (generate_weekly_plan single_item_solver id six_meals [] scenario_targets [])))))"
proof -
  note call = each_support_set_proposed_once[where L = "{[1]}" and solve = exhaustive_solver
      and cf = id and df = "take 3 six_meals" and tgt = scenario_targets and excl = "[]"
      and dy = "Some 1" and tr = "[]"]
  note week = each_support_set_proposed_once[where solve = single_item_solver and cf = id
      and df = six_meals and tgt = scenario_targets and excl = "[]"
      and rs = "[Reject, Reject]" and s = first_meal_shown and tr' = "[]"]
  have a: "[1] \<in> rejected (state_of
     (find_all_solutions exhaustive_solver id (take 3 six_meals) scenario_targets [] {[1]}
        (Some 1) []))"
    using call by blast
  have b: "[0] \<in> rejected_solutions first_meal_shown"
    by (simp add: first_meal_shown_def)
  have c: "distinct (proposed (snd (state_of (run single_item_solver id [Reject, Reject]
     (generate_weekly_plan single_item_solver id six_meals [] scenario_targets [])))))"
    using week by blast
  show ?thesis
    using a b c three_meals_search first_meal_rejected_twice six_meals_rejected_twice
    by blast
qed

end
